theory Spec2Isabelle
  imports Main "HOL-Library.Word" "HOL-Library.AList"
begin

section \<open>JavaScript values reaching the Launchpad class\<close>

text \<open>
  The class is written in JavaScript, so every argument may be any value. The model keeps
  the cases the guards of the source distinguish: the primitives, and objects whose shape
  is given by the type parameter (a color-like object, a button-like object, an array).
  Numbers are the integers together with \<open>NaN\<close>; the properties \<open>r\<close>, \<open>g\<close>, \<open>_note_key\<close>
  and \<open>_automap_key\<close> of an object hold an integer or are absent, and \<open>name\<close> holds a
  string or is absent; a property that is absent reads as \<open>undefined\<close>, written \<open>None\<close>.
  The commands are asynchronous; the model runs each of them to completion, as a caller that
  awaits every command sees it.
\<close>

datatype jsnum = Num int | NaN

datatype 'o jsval =
    JUndefined
  | JNull
  | JBool bool
  | JNumber jsnum
  | JString string
  | JObject 'o

text \<open>Truthiness, as used by \<open>!v\<close>, \<open>v ? a : b\<close> and \<open>if (v)\<close>.\<close>

fun truthy :: "'o jsval \<Rightarrow> bool" where
  "truthy JUndefined = False"
| "truthy JNull = False"
| "truthy (JBool b) = b"
| "truthy (JNumber (Num n)) = (n \<noteq> 0)"
| "truthy (JNumber NaN) = False"
| "truthy (JString s) = (s \<noteq> [])"
| "truthy (JObject obj) = True"

fun typeof :: "'o jsval \<Rightarrow> string" where
  "typeof JUndefined = ''undefined''"
| "typeof JNull = ''object''"
| "typeof (JBool b) = ''boolean''"
| "typeof (JNumber n) = ''number''"
| "typeof (JString s) = ''string''"
| "typeof (JObject obj) = ''object''"

text \<open>\<open>ToNumber\<close> of a numeric property that may be absent, and the two operators used.\<close>

fun ToNumber :: "int option \<Rightarrow> jsnum" where
  "ToNumber None = NaN"
| "ToNumber (Some n) = Num n"

fun js_add :: "jsnum \<Rightarrow> jsnum \<Rightarrow> jsnum" where
  "js_add (Num a) (Num b) = Num (a + b)"
| "js_add _ _ = NaN"

fun js_mul :: "jsnum \<Rightarrow> jsnum \<Rightarrow> jsnum" where
  "js_mul (Num a) (Num b) = Num (a * b)"
| "js_mul _ _ = NaN"

text \<open>
  An element stored into a \<open>Uint8Array\<close> is converted modulo 256; \<open>NaN\<close> and
  \<open>undefined\<close> (an argument that is missing, \<open>None\<close>) become 0.
\<close>

type_synonym byte = "8 word"

fun ToUint8 :: "jsnum option \<Rightarrow> byte" where
  "ToUint8 None = 0"
| "ToUint8 (Some NaN) = 0"
| "ToUint8 (Some (Num n)) = word_of_int n"

text \<open>The errors of the source: \<open>throw new Error(msg)\<close>, and the runtime's TypeError.\<close>

datatype error = Error string | TypeError

section \<open>Colors\<close>

record color =
  color_name :: string
  color_r :: "int option"
  color_g :: "int option"
  htmlColorCode :: string

definition colorGenerator :: "string \<Rightarrow> int \<Rightarrow> int \<Rightarrow> string \<Rightarrow> color" where
  "colorGenerator name r g code =
     \<lparr>color_name = name, color_r = Some r, color_g = Some g, htmlColorCode = code\<rparr>"

definition Colors_Off :: color where "Colors_Off = colorGenerator ''Off'' 0 0 ''#555555''"
definition Colors_GreenLow :: color where "Colors_GreenLow = colorGenerator ''GreenLow'' 0 1 ''#687b49''"
definition Colors_GreenMed :: color where "Colors_GreenMed = colorGenerator ''GreenMed'' 0 2 ''#8a9f47''"
definition Colors_Green :: color where "Colors_Green = colorGenerator ''Green'' 0 3 ''#a8cc36''"
definition Colors_RedLow :: color where "Colors_RedLow = colorGenerator ''RedLow'' 1 0 ''#8a4b4b''"
definition Colors_RedMed :: color where "Colors_RedMed = colorGenerator ''RedMed'' 2 0 ''#a14e4e''"
definition Colors_Red :: color where "Colors_Red = colorGenerator ''Red'' 3 0 ''#e02323''"
definition Colors_OrangeMed :: color where "Colors_OrangeMed = colorGenerator ''OrangeMed'' 2 1 ''#ca6919''"
definition Colors_Orange :: color where "Colors_Orange = colorGenerator ''Orange'' 3 2 ''#db7018''"
definition Colors_YellowMed :: color where "Colors_YellowMed = colorGenerator ''YellowMed'' 1 2 ''#bbad25''"
definition Colors_Yellow :: color where "Colors_Yellow = colorGenerator ''Yellow'' 2 3 ''#dbc708''"
definition Colors_AmberLow :: color where "Colors_AmberLow = colorGenerator ''AmberLow'' 1 1 ''#9f721a''"
definition Colors_AmberMed :: color where "Colors_AmberMed = colorGenerator ''AmberMed'' 2 2 ''#c18819''"
definition Colors_Amber :: color where "Colors_Amber = colorGenerator ''Amber'' 3 3 ''#ffba32''"
definition Colors_Lime :: color where "Colors_Lime = colorGenerator ''Lime'' 1 3 ''#d0e021''"
definition Colors_OrangeRed :: color where "Colors_OrangeRed = colorGenerator ''OrangeRed'' 3 1 ''#f3581f''"

text \<open>\<open>Launchpad.Colors\<close>, in the order the properties are assigned.\<close>

definition Colors :: "(string \<times> color) list" where
  "Colors =
    [(''Off'', Colors_Off), (''GreenLow'', Colors_GreenLow), (''GreenMed'', Colors_GreenMed),
     (''Green'', Colors_Green), (''RedLow'', Colors_RedLow), (''RedMed'', Colors_RedMed),
     (''Red'', Colors_Red), (''OrangeMed'', Colors_OrangeMed), (''Orange'', Colors_Orange),
     (''YellowMed'', Colors_YellowMed), (''Yellow'', Colors_Yellow),
     (''AmberLow'', Colors_AmberLow), (''AmberMed'', Colors_AmberMed),
     (''Amber'', Colors_Amber), (''Lime'', Colors_Lime), (''OrangeRed'', Colors_OrangeRed)]"

definition palette :: "color list" where
  "palette = map snd Colors"

text \<open>Reading \<open>color.r\<close> and \<open>color.g\<close>: a primitive has no such property.\<close>

fun prop_r :: "color jsval \<Rightarrow> int option" where
  "prop_r (JObject c) = color_r c"
| "prop_r _ = None"

fun prop_g :: "color jsval \<Rightarrow> int option" where
  "prop_g (JObject c) = color_g c"
| "prop_g _ = None"

text \<open>
  \<open>_colorToMIDIVelocity\<close>. The two flags are passed as their truthiness; an omitted flag
  takes the default \<open>false\<close>.
\<close>

definition colorToMIDIVelocity :: "color jsval \<Rightarrow> bool \<Rightarrow> bool \<Rightarrow> error + jsnum" where
  "colorToMIDIVelocity color changeInBothBuffers turnOffInOtherBuffer =
     (if \<not> truthy color \<or> typeof color \<noteq> ''object'' \<or> (prop_r color = None \<and> prop_g color = None)
      then Inl (Error ''Invalid color'')
      else Inr (js_add
                 (js_add
                   (js_add (Num (if turnOffInOtherBuffer then 8 else 0))
                           (Num (if changeInBothBuffers then 12 else 0)))
                   (ToNumber (prop_r color)))
                 (js_mul (ToNumber (prop_g color)) (Num 16))))"

section \<open>Buttons\<close>

record button =
  button_name :: "string option"
  button_x :: "int option"
  button_y :: "int option"
  note_key :: "int option"
  automap_key :: "int option"

text \<open>\<open>buttonGenerator\<close> copies every property of its argument into a read-only object.\<close>

definition buttonGenerator :: "button \<Rightarrow> button" where
  "buttonGenerator data = data"

text \<open>The template literal \<open>`${x}${y}`\<close> prints both numbers in decimal.\<close>

fun toString :: "nat \<Rightarrow> string" where
  "toString n = (if n < 10 then [char_of (48 + n)]
                 else toString (n div 10) @ [char_of (48 + n mod 10)])"

declare toString.simps [simp del]

definition gridButton :: "string \<Rightarrow> int \<Rightarrow> int \<Rightarrow> string \<times> button" where
  "gridButton name x y =
     (name, buttonGenerator \<lparr>button_name = Some name, button_x = Some x, button_y = Some y,
                             note_key = Some (x + y * 16), automap_key = None\<rparr>)"

definition noteButton :: "string \<Rightarrow> int \<Rightarrow> string \<times> button" where
  "noteButton name k =
     (name, buttonGenerator \<lparr>button_name = Some name, button_x = None, button_y = None,
                             note_key = Some k, automap_key = None\<rparr>)"

definition automapButton :: "string \<Rightarrow> int \<Rightarrow> string \<times> button" where
  "automapButton name k =
     (name, buttonGenerator \<lparr>button_name = Some name, button_x = None, button_y = None,
                             note_key = None, automap_key = Some k\<rparr>)"

text \<open>\<open>Launchpad.Buttons\<close>, in the order the properties are assigned.\<close>

definition Buttons :: "(string \<times> button) list" where
  "Buttons =
     concat (map (\<lambda>y. map (\<lambda>x. gridButton (toString x @ toString y) (int x) (int y)) [0..<8])
                 [0..<8]) @
     [noteButton ''Vol'' 8, noteButton ''Pan'' 24, noteButton ''SendA'' 40,
      noteButton ''SendB'' 56, noteButton ''Stop'' 72, noteButton ''TrackOn'' 88,
      noteButton ''Solo'' 104, noteButton ''Arm'' 120,
      automapButton ''Up'' 104, automapButton ''Down'' 105, automapButton ''Left'' 106,
      automapButton ''Right'' 107, automapButton ''Session'' 108, automapButton ''User1'' 109,
      automapButton ''User2'' 110, automapButton ''Mixer'' 111]"

text \<open>\<open>Launchpad.Buttons[name]\<close>; a missing property reads as \<open>undefined\<close>.\<close>

definition Buttons_get :: "string \<Rightarrow> button option" where
  "Buttons_get name = map_of Buttons name"

text \<open>
  \<open>Object.keys\<close> lists the keys that are array indices (canonical decimal numerals below
  \<open>2^32 - 1\<close>) first, in ascending numeric order, and then the other string keys in the
  order of their creation.
\<close>

definition isDigit :: "char \<Rightarrow> bool" where
  "isDigit c \<longleftrightarrow> 48 \<le> (of_char c :: int) \<and> (of_char c :: int) \<le> 57"

definition indexValue :: "string \<Rightarrow> int" where
  "indexValue k = foldl (\<lambda>a c. 10 * a + (of_char c - 48)) 0 k"

definition isArrayIndex :: "string \<Rightarrow> bool" where
  "isArrayIndex k \<longleftrightarrow>
     k \<noteq> [] \<and> list_all isDigit k \<and> (k = ''0'' \<or> hd k \<noteq> CHR ''0'') \<and>
     indexValue k < 2 ^ 32 - 1"

definition Object_keys :: "(string \<times> 'a) list \<Rightarrow> string list" where
  "Object_keys obj =
     sort_key indexValue (filter isArrayIndex (map fst obj)) @
     filter (\<lambda>k. \<not> isArrayIndex k) (map fst obj)"

section \<open>The state of a Launchpad object\<close>

text \<open>
  The fields of \<open>this\<close> that the commands read or write. The MIDI output port
  \<open>this.output\<close> is the list of messages sent through it so far (\<open>None\<close> is the \<open>null\<close>
  of an object that is not connected); the port is taken to accept every message. A listener is known by the identity
  of its callback, and a call of a callback is recorded in \<open>calls\<close> with the argument it
  received (\<open>None\<close> for \<open>undefined\<close>); callbacks are taken not to call back into the
  object. An LED buffer is the property list of a plain object, read through \<open>map_of\<close>.
  The set of pressed buttons holds button objects by identity; on the objects of the
  registry, which are pairwise different, that is equality of records.
\<close>

type_synonym ledBuffer = "(string \<times> color jsval) list"

record launchpad =
  outputPort :: "byte list list option"
  listeners_pressed :: "nat list"
  listeners_released :: "nat list"
  listeners_led_changed :: "nat list"
  calls :: "(nat \<times> button option) list"
  pressedButtons :: "button set"
  ledBuffers :: "(ledBuffer \<times> ledBuffer) option"
  flashingBuffers :: "unit jsval"
  displayingBuffer :: "int option"
  updatingBuffer :: "int option"
  cachedOrderedButtons :: "(string \<times> button option list) list option"

definition constructor :: launchpad where
  "constructor =
     \<lparr>outputPort = None, listeners_pressed = [], listeners_released = [],
      listeners_led_changed = [], calls = [], pressedButtons = {}, ledBuffers = None,
      flashingBuffers = JUndefined, displayingBuffer = None, updatingBuffer = None,
      cachedOrderedButtons = None\<rparr>"

datatype listenerKind = pressed | released | led_changed

fun listeners :: "launchpad \<Rightarrow> listenerKind \<Rightarrow> nat list" where
  "listeners s pressed = listeners_pressed s"
| "listeners s released = listeners_released s"
| "listeners s led_changed = listeners_led_changed s"

section \<open>Private functions\<close>

definition dispatchListener :: "listenerKind \<Rightarrow> button option \<Rightarrow> launchpad \<Rightarrow> launchpad" where
  "dispatchListener listener data s =
     s\<lparr>calls := calls s @ map (\<lambda>callback. (callback, data)) (listeners s listener)\<rparr>"

definition midiSend :: "jsnum option list \<Rightarrow> launchpad \<Rightarrow> (error + unit) \<times> launchpad" where
  "midiSend arguments s =
     (case outputPort s of
        None \<Rightarrow> (Inl TypeError, s)
      | Some sent \<Rightarrow> (Inr (), s\<lparr>outputPort := Some (sent @ [map ToUint8 arguments])\<rparr>))"

text \<open>The assignment \<open>this.ledBuffers[this.updatingBuffer][key] = color\<close>.\<close>

definition setLed :: "string \<Rightarrow> color jsval \<Rightarrow> launchpad \<Rightarrow> (error + unit) \<times> launchpad" where
  "setLed key color s =
     (case ledBuffers s of
        None \<Rightarrow> (Inl TypeError, s)
      | Some (buffer0, buffer1) \<Rightarrow>
          if updatingBuffer s = Some 0
          then (Inr (), s\<lparr>ledBuffers := Some (AList.update key color buffer0, buffer1)\<rparr>)
          else if updatingBuffer s = Some 1
          then (Inr (), s\<lparr>ledBuffers := Some (buffer0, AList.update key color buffer1)\<rparr>)
          else (Inl TypeError, s))"

text \<open>A value used as a property key: \<open>undefined\<close> becomes the string of that name.\<close>

fun propertyKey :: "string option \<Rightarrow> string" where
  "propertyKey None = ''undefined''"
| "propertyKey (Some name) = name"

fun prop_note_key :: "button jsval \<Rightarrow> int option" where
  "prop_note_key (JObject b) = note_key b"
| "prop_note_key _ = None"

fun prop_automap_key :: "button jsval \<Rightarrow> int option" where
  "prop_automap_key (JObject b) = automap_key b"
| "prop_automap_key _ = None"

fun prop_name :: "button jsval \<Rightarrow> string option" where
  "prop_name (JObject b) = button_name b"
| "prop_name _ = None"

section \<open>Public commands\<close>

definition reset :: "launchpad \<Rightarrow> (error + unit) \<times> launchpad" where
  "reset s =
     (case midiSend [Some (Num 0xB0), Some (Num 0), Some (Num 0)] s of
        (Inl e, s1) \<Rightarrow> (Inl e, s1)
      | (Inr u, s1) \<Rightarrow>
          (Inr (),
           dispatchListener led_changed None
             (s1\<lparr>flashingBuffers := JNumber (Num 0),
                 displayingBuffer := Some 0,
                 updatingBuffer := Some 0,
                 ledBuffers :=
                   Some (foldl (\<lambda>(buffer0, buffer1) buttonName.
                                  (AList.update buttonName (JObject Colors_Off) buffer0,
                                   AList.update buttonName (JObject Colors_Off) buffer1))
                               ([], []) (Object_keys Buttons))\<rparr>)))"

definition setSingleLED ::
  "button jsval \<Rightarrow> color jsval \<Rightarrow> bool \<Rightarrow> bool \<Rightarrow> launchpad \<Rightarrow> (error + unit) \<times> launchpad" where
  "setSingleLED button color changeInBothBuffers turnOffInOtherBuffer s =
     (if \<not> truthy button \<or> typeof button \<noteq> ''object'' \<or>
         (prop_note_key button = None \<and> prop_automap_key button = None)
      then (Inl (Error ''Invalid button''), s)
      else
        case colorToMIDIVelocity color changeInBothBuffers turnOffInOtherBuffer of
          Inl e \<Rightarrow> (Inl e, s)
        | Inr velocity \<Rightarrow>
            let ledID = (if prop_note_key button \<noteq> None then prop_note_key button
                         else prop_automap_key button)
            in case midiSend [Some (Num (if prop_note_key button \<noteq> None then 0x90 else 0xB0)),
                              map_option Num ledID, Some velocity] s of
                 (Inl e, s1) \<Rightarrow> (Inl e, s1)
               | (Inr u, s1) \<Rightarrow>
                   (case setLed (propertyKey (prop_name button)) color s1 of
                      (Inl e, s2) \<Rightarrow> (Inl e, s2)
                    | (Inr u, s2) \<Rightarrow> (Inr (), dispatchListener led_changed None s2)))"

text \<open>Numerator and denominator are integers.\<close>

definition setDutyCycle :: "int \<Rightarrow> int \<Rightarrow> launchpad \<Rightarrow> (error + unit) \<times> launchpad" where
  "setDutyCycle numerator denominator s =
     (if numerator < 1 \<or> numerator > 16 then (Inl (Error ''Invalid numerator''), s)
      else if denominator < 3 \<or> denominator > 18 then (Inl (Error ''Invalid denominator''), s)
      else if numerator < 9
      then midiSend [Some (Num 0xB0), Some (Num 0x1E),
                     Some (Num (16 * (numerator - 1) + (denominator - 3)))] s
      else midiSend [Some (Num 0xB0), Some (Num 0x1F),
                     Some (Num (16 * (numerator - 9) + (denominator - 3)))] s)"

definition setBrightness :: "int \<Rightarrow> launchpad \<Rightarrow> (error + unit) \<times> launchpad" where
  "setBrightness brightness s =
     (if brightness = 1 then setDutyCycle 1 5 s
      else if brightness = 2 then setDutyCycle 2 5 s
      else if brightness = 3 then setDutyCycle 3 5 s
      else if brightness = 4 then setDutyCycle 4 5 s
      else if brightness = 5 then setDutyCycle 5 5 s
      else (Inl (Error ''Invalid brightness''), s))"

subsection \<open>Ordered lists of buttons\<close>

definition sideBar :: "string list" where
  "sideBar = [''Vol'', ''Pan'', ''SendA'', ''SendB'', ''Stop'', ''TrackOn'', ''Solo'', ''Arm'']"

definition physicalNames :: "string list" where
  "physicalNames =
     [''Up'', ''Down'', ''Left'', ''Right'', ''Session'', ''User1'', ''User2'', ''Mixer''] @
     concat (map (\<lambda>y. map (\<lambda>x. toString x @ toString y) [0..<8] @ [sideBar ! y]) [0..<8])"

definition forBatchNames :: "string list" where
  "forBatchNames =
     concat (map (\<lambda>y. map (\<lambda>x. toString x @ toString y) [0..<8]) [0..<8]) @
     [''Vol'', ''Pan'', ''SendA'', ''SendB'', ''Stop'', ''TrackOn'', ''Solo'', ''Arm'',
      ''Up'', ''Down'', ''Left'', ''Right'', ''Session'', ''User1'', ''User2'', ''Mixer'']"

text \<open>
  \<open>getOrderedButtons\<close> fills \<open>this._cachedOrderedButtons\<close> on the first call for an order
  and returns the cached list; for an order it does not know it returns \<open>undefined\<close>.
\<close>

definition getOrderedButtons ::
  "string \<Rightarrow> launchpad \<Rightarrow> button option list option \<times> launchpad" where
  "getOrderedButtons order s =
     (let cache = (case cachedOrderedButtons s of None \<Rightarrow> [] | Some c \<Rightarrow> c)
      in case map_of cache order of
           Some listOfButtons \<Rightarrow> (Some listOfButtons, s\<lparr>cachedOrderedButtons := Some cache\<rparr>)
         | None \<Rightarrow>
             if order = ''physical''
             then (Some (map Buttons_get physicalNames),
                   s\<lparr>cachedOrderedButtons :=
                       Some (AList.update order (map Buttons_get physicalNames) cache)\<rparr>)
             else if order = ''forBatch''
             then (Some (map Buttons_get forBatchNames),
                   s\<lparr>cachedOrderedButtons :=
                       Some (AList.update order (map Buttons_get forBatchNames) cache)\<rparr>)
             else (None, s\<lparr>cachedOrderedButtons := Some cache\<rparr>))"

subsection \<open>Batch update\<close>

text \<open>
  An object passed as \<open>colors\<close> is an Array, which may be sparse: the list of its slots up to
  \<open>length\<close>, where \<open>None\<close> is a hole (an index that holds no element). Reading \<open>a[i]\<close> at a
  hole or beyond the length gives \<open>undefined\<close>.
\<close>

fun elements :: "'a list jsval \<Rightarrow> 'a list" where
  "elements (JObject xs) = xs"
| "elements _ = []"

definition colorAt :: "color jsval option list \<Rightarrow> nat \<Rightarrow> color jsval" where
  "colorAt colors i =
     (if i < length colors
      then (case colors ! i of None \<Rightarrow> JUndefined | Some color \<Rightarrow> color)
      else JUndefined)"

definition velocityAt :: "jsnum option list \<Rightarrow> nat \<Rightarrow> jsnum option" where
  "velocityAt velocities i = (if i < length velocities then velocities ! i else None)"


text \<open>\<open>listOfButtons[i].name\<close>, as a property key.\<close>

definition nameAt :: "button option list option \<Rightarrow> nat \<Rightarrow> error + string" where
  "nameAt listOfButtons i =
     (case listOfButtons of
        None \<Rightarrow> Inl TypeError
      | Some l \<Rightarrow>
          if i < length l
          then (case l ! i of None \<Rightarrow> Inl TypeError
                            | Some b \<Rightarrow> Inr (propertyKey (button_name b)))
          else Inl TypeError)"

text \<open>
  \<open>colors.map(color => this._colorToMIDIVelocity(color))\<close>: \<open>map\<close> calls the function on the
  elements in index order and stops at the first throw; it skips the holes, which stay holes
  of the result, so the result has the length of \<open>colors\<close>.
\<close>

fun mapVelocity :: "color jsval option list \<Rightarrow> error + jsnum option list" where
  "mapVelocity [] = Inr []"
| "mapVelocity (None # colors) =
     (case mapVelocity colors of Inl e \<Rightarrow> Inl e | Inr vs \<Rightarrow> Inr (None # vs))"
| "mapVelocity (Some color # colors) =
     (case colorToMIDIVelocity color False False of
        Inl e \<Rightarrow> Inl e
      | Inr v \<Rightarrow> (case mapVelocity colors of Inl e \<Rightarrow> Inl e | Inr vs \<Rightarrow> Inr (Some v # vs)))"

text \<open>The body of the loop of \<open>setMultipleLED\<close> at index \<open>i\<close>.\<close>

definition setMultipleLED_body ::
  "color jsval option list \<Rightarrow> jsnum option list \<Rightarrow> button option list option \<Rightarrow> nat \<Rightarrow>
   launchpad \<Rightarrow> (error + unit) \<times> launchpad" where
  "setMultipleLED_body colors velocities listOfButtons i s =
     (case midiSend [Some (Num 0x92), velocityAt velocities i, velocityAt velocities (i + 1)] s of
        (Inl e, s1) \<Rightarrow> (Inl e, s1)
      | (Inr u, s1) \<Rightarrow>
          (case nameAt listOfButtons i of
             Inl e \<Rightarrow> (Inl e, s1)
           | Inr k \<Rightarrow>
               (case setLed k (colorAt colors i) s1 of
                  (Inl e, s2) \<Rightarrow> (Inl e, s2)
                | (Inr u, s2) \<Rightarrow>
                    if truthy (colorAt colors (i + 1))
                    then (case nameAt listOfButtons (i + 1) of
                            Inl e \<Rightarrow> (Inl e, s2)
                          | Inr k' \<Rightarrow> setLed k' (colorAt colors (i + 1)) s2)
                    else (Inr (), s2))))"

function setMultipleLED_loop ::
  "color jsval option list \<Rightarrow> jsnum option list \<Rightarrow> button option list option \<Rightarrow> nat \<Rightarrow>
   launchpad \<Rightarrow> (error + unit) \<times> launchpad" where
  "setMultipleLED_loop colors velocities listOfButtons i s =
     (if i < length velocities
      then (case setMultipleLED_body colors velocities listOfButtons i s of
              (Inl e, s1) \<Rightarrow> (Inl e, s1)
            | (Inr u, s1) \<Rightarrow> setMultipleLED_loop colors velocities listOfButtons (i + 2) s1)
      else (Inr (), s))"
  by pat_completeness auto
termination
  by (relation "measure (\<lambda>(colors, velocities, listOfButtons, i, s). length velocities - i)") auto

declare setMultipleLED_loop.simps [simp del]

fun buttonValue :: "button option \<Rightarrow> button jsval" where
  "buttonValue None = JUndefined"
| "buttonValue (Some b) = JObject b"

definition setMultipleLED ::
  "color jsval option list jsval \<Rightarrow> launchpad \<Rightarrow> (error + unit) \<times> launchpad" where
  "setMultipleLED colors s =
     (if \<not> truthy colors \<or> typeof colors \<noteq> ''object''
      then (Inl (Error ''Invalid argument type. Must be array of colors''), s)
      else if length (elements colors) = 0
      then (Inl (Error ''Invalid colors array: Can not be empty''), s)
      else if length (elements colors) > 80
      then (Inl (Error ''Invalid colors array: Can not have more than 80 elements''), s)
      else
        case getOrderedButtons ''forBatch'' s of
          (listOfButtons, s0) \<Rightarrow>
            (case mapVelocity (elements colors) of
               Inl e \<Rightarrow> (Inl e, s0)
             | Inr velocities \<Rightarrow>
                 (case setMultipleLED_loop (elements colors) velocities listOfButtons 0 s0 of
                    (Inl e, s1) \<Rightarrow> (Inl e, s1)
                  | (Inr u, s1) \<Rightarrow>
                      (case setSingleLED (buttonValue (Buttons_get ''00''))
                              (colorAt (elements colors) 0) False False s1 of
                         (Inl e, s2) \<Rightarrow> (Inl e, s2)
                       | (Inr u, s2) \<Rightarrow> (Inr (), dispatchListener led_changed None s2)))))"

subsection \<open>Pressed buttons\<close>

fun isButtonPressed :: "button jsval \<Rightarrow> launchpad \<Rightarrow> bool" where
  "isButtonPressed (JObject b) s = (b \<in> pressedButtons s)"
| "isButtonPressed _ s = False"

text \<open>The search loop of \<open>_midiMessageListener\<close> over \<open>Object.keys(Launchpad.Buttons)\<close>.\<close>

definition findButton :: "byte list \<Rightarrow> button option" where
  "findButton data =
     (case find (\<lambda>i. case Buttons_get i of
                        None \<Rightarrow> False
                      | Some b \<Rightarrow> (if data ! 0 = 0x90 then note_key b else automap_key b)
                                  = Some (uint (data ! 1)))
                (Object_keys Buttons) of
        None \<Rightarrow> None
      | Some i \<Rightarrow> Buttons_get i)"

fun messageType :: "byte \<Rightarrow> listenerKind option" where
  "messageType b = (if b = 0x7F then Some pressed else if b = 0x0 then Some released else None)"

definition midiMessageListener :: "byte list \<Rightarrow> launchpad \<Rightarrow> launchpad" where
  "midiMessageListener data s =
     (if length data \<noteq> 3 then s
      else case messageType (data ! 2) of
             None \<Rightarrow> s
           | Some type \<Rightarrow>
               (case findButton data of
                  None \<Rightarrow> s
                | Some button \<Rightarrow>
                    dispatchListener type (Some button)
                      (s\<lparr>pressedButtons :=
                           (if type = pressed then insert button (pressedButtons s)
                            else pressedButtons s - {button})\<rparr>)))"

section \<open>Observations used in the statements\<close>

text \<open>
  \<open>pad.ledBuffers[n][name]\<close>, the read a client makes of an LED buffer; \<open>None\<close> when the
  buffer or the entry does not exist.
\<close>

definition bufferAt ::
  "(ledBuffer \<times> ledBuffer) option \<Rightarrow> int \<Rightarrow> string \<Rightarrow> color jsval option" where
  "bufferAt buffers n name =
     (case buffers of
        None \<Rightarrow> None
      | Some (buffer0, buffer1) \<Rightarrow>
          if n = 0 then map_of buffer0 name
          else if n = 1 then map_of buffer1 name
          else None)"

definition ledAt :: "launchpad \<Rightarrow> int \<Rightarrow> string \<Rightarrow> color jsval option" where
  "ledAt s n name = bufferAt (ledBuffers s) n name"

text \<open>One call of every LED-changed listener, with no argument.\<close>

definition ledChangedCalls :: "launchpad \<Rightarrow> (nat \<times> button option) list" where
  "ledChangedCalls s = map (\<lambda>callback. (callback, None)) (listeners_led_changed s)"

text \<open>
  The private cache only ever holds the lists that \<open>getOrderedButtons\<close> computes: it is
  empty in a new object and no other function writes it.
\<close>

definition cacheConsistent :: "launchpad \<Rightarrow> bool" where
  "cacheConsistent s \<longleftrightarrow>
     (case cachedOrderedButtons s of
        None \<Rightarrow> True
      | Some cache \<Rightarrow>
          (case map_of cache ''physical'' of
             None \<Rightarrow> True
           | Some l \<Rightarrow> l = map Buttons_get physicalNames) \<and>
          (case map_of cache ''forBatch'' of
             None \<Rightarrow> True
           | Some l \<Rightarrow> l = map Buttons_get forBatchNames))"

text \<open>
  The LED buffers exist and the updating buffer is one of them, as after \<open>reset\<close>.
\<close>

definition buffersReady :: "launchpad \<Rightarrow> bool" where
  "buffersReady s \<longleftrightarrow>
     ledBuffers s \<noteq> None \<and> (updatingBuffer s = Some 0 \<or> updatingBuffer s = Some 1)"

text \<open>
  A step from \<open>s\<close> to \<open>s'\<close> that leaves the cache and the choice of the updating buffer
  alone and does not remove the LED buffers.
\<close>

definition keepsSetup :: "launchpad \<Rightarrow> launchpad \<Rightarrow> bool" where
  "keepsSetup s s' \<longleftrightarrow>
     cachedOrderedButtons s' = cachedOrderedButtons s \<and>
     updatingBuffer s' = updatingBuffer s \<and>
     (ledBuffers s \<noteq> None \<longrightarrow> ledBuffers s' \<noteq> None)"

text \<open>The wire messages expected of the loop of \<open>setMultipleLED\<close> for a list of velocities.\<close>

fun pairedMessages :: "jsnum option list \<Rightarrow> byte list list" where
  "pairedMessages (v # w # vs) = [0x92, ToUint8 v, ToUint8 w] # pairedMessages vs"
| "pairedMessages [v] = [[0x92, ToUint8 v, 0]]"
| "pairedMessages [] = []"



text \<open>
  A connected object with one listener of each kind, as after \<open>accessDevice\<close> has found the
  output port and the client has registered its callbacks; and the same object after
  \<open>reset\<close>.
\<close>

definition connectedPad :: launchpad where
  "connectedPad =
     constructor\<lparr>outputPort := Some [], listeners_pressed := [1], listeners_released := [2],
                 listeners_led_changed := [3]\<rparr>"

definition readyPad :: launchpad where
  "readyPad = snd (reset connectedPad)"

section \<open>The registry\<close>

lemma Buttons_table:
  "Buttons =
     [gridButton ''00'' 0 0, gridButton ''10'' 1 0, gridButton ''20'' 2 0, gridButton ''30'' 3 0, gridButton ''40'' 4 0, gridButton ''50'' 5 0, gridButton ''60'' 6 0, gridButton ''70'' 7 0,
      gridButton ''01'' 0 1, gridButton ''11'' 1 1, gridButton ''21'' 2 1, gridButton ''31'' 3 1, gridButton ''41'' 4 1, gridButton ''51'' 5 1, gridButton ''61'' 6 1, gridButton ''71'' 7 1,
      gridButton ''02'' 0 2, gridButton ''12'' 1 2, gridButton ''22'' 2 2, gridButton ''32'' 3 2, gridButton ''42'' 4 2, gridButton ''52'' 5 2, gridButton ''62'' 6 2, gridButton ''72'' 7 2,
      gridButton ''03'' 0 3, gridButton ''13'' 1 3, gridButton ''23'' 2 3, gridButton ''33'' 3 3, gridButton ''43'' 4 3, gridButton ''53'' 5 3, gridButton ''63'' 6 3, gridButton ''73'' 7 3,
      gridButton ''04'' 0 4, gridButton ''14'' 1 4, gridButton ''24'' 2 4, gridButton ''34'' 3 4, gridButton ''44'' 4 4, gridButton ''54'' 5 4, gridButton ''64'' 6 4, gridButton ''74'' 7 4,
      gridButton ''05'' 0 5, gridButton ''15'' 1 5, gridButton ''25'' 2 5, gridButton ''35'' 3 5, gridButton ''45'' 4 5, gridButton ''55'' 5 5, gridButton ''65'' 6 5, gridButton ''75'' 7 5,
      gridButton ''06'' 0 6, gridButton ''16'' 1 6, gridButton ''26'' 2 6, gridButton ''36'' 3 6, gridButton ''46'' 4 6, gridButton ''56'' 5 6, gridButton ''66'' 6 6, gridButton ''76'' 7 6,
      gridButton ''07'' 0 7, gridButton ''17'' 1 7, gridButton ''27'' 2 7, gridButton ''37'' 3 7, gridButton ''47'' 4 7, gridButton ''57'' 5 7, gridButton ''67'' 6 7, gridButton ''77'' 7 7,
      noteButton ''Vol'' 8, noteButton ''Pan'' 24, noteButton ''SendA'' 40, noteButton ''SendB'' 56, noteButton ''Stop'' 72, noteButton ''TrackOn'' 88, noteButton ''Solo'' 104, noteButton ''Arm'' 120,
      automapButton ''Up'' 104, automapButton ''Down'' 105, automapButton ''Left'' 106, automapButton ''Right'' 107, automapButton ''Session'' 108, automapButton ''User1'' 109, automapButton ''User2'' 110, automapButton ''Mixer'' 111]"
  by code_simp

lemmas entry_defs = gridButton_def noteButton_def automapButton_def buttonGenerator_def

lemma Buttons_names:
  "map fst Buttons =
     [''00'', ''10'', ''20'', ''30'', ''40'', ''50'', ''60'', ''70'', ''01'', ''11'',
      ''21'', ''31'', ''41'', ''51'', ''61'', ''71'', ''02'', ''12'', ''22'', ''32'',
      ''42'', ''52'', ''62'', ''72'', ''03'', ''13'', ''23'', ''33'', ''43'', ''53'',
      ''63'', ''73'', ''04'', ''14'', ''24'', ''34'', ''44'', ''54'', ''64'', ''74'',
      ''05'', ''15'', ''25'', ''35'', ''45'', ''55'', ''65'', ''75'', ''06'', ''16'',
      ''26'', ''36'', ''46'', ''56'', ''66'', ''76'', ''07'', ''17'', ''27'', ''37'',
      ''47'', ''57'', ''67'', ''77'', ''Vol'', ''Pan'', ''SendA'', ''SendB'', ''Stop'', ''TrackOn'',
      ''Solo'', ''Arm'', ''Up'', ''Down'', ''Left'', ''Right'', ''Session'', ''User1'', ''User2'', ''Mixer'']"
  by (simp add: Buttons_table entry_defs)

lemma forBatchNames_registry: "forBatchNames = map fst Buttons"
  unfolding Buttons_names by code_simp

lemma physicalNames_table:
  "physicalNames =
     [''Up'', ''Down'', ''Left'', ''Right'', ''Session'', ''User1'', ''User2'', ''Mixer'', ''00'', ''10'',
      ''20'', ''30'', ''40'', ''50'', ''60'', ''70'', ''Vol'', ''01'', ''11'', ''21'',
      ''31'', ''41'', ''51'', ''61'', ''71'', ''Pan'', ''02'', ''12'', ''22'', ''32'',
      ''42'', ''52'', ''62'', ''72'', ''SendA'', ''03'', ''13'', ''23'', ''33'', ''43'',
      ''53'', ''63'', ''73'', ''SendB'', ''04'', ''14'', ''24'', ''34'', ''44'', ''54'',
      ''64'', ''74'', ''Stop'', ''05'', ''15'', ''25'', ''35'', ''45'', ''55'', ''65'',
      ''75'', ''TrackOn'', ''06'', ''16'', ''26'', ''36'', ''46'', ''56'', ''66'', ''76'',
      ''Solo'', ''07'', ''17'', ''27'', ''37'', ''47'', ''57'', ''67'', ''77'', ''Arm'']"
  by code_simp

lemma Buttons_length: "length Buttons = 80"
  by (simp add: Buttons_table)

lemma Buttons_distinct_names: "distinct (map fst Buttons)"
  unfolding Buttons_names by simp

lemma physicalNames_distinct: "distinct physicalNames"
  unfolding physicalNames_table by simp

lemma physicalNames_set: "set physicalNames = set (map fst Buttons)"
  unfolding physicalNames_table Buttons_names by (simp add: insert_commute)

lemma Buttons_get_entry: "(n, b) \<in> set Buttons \<Longrightarrow> Buttons_get n = Some b"
  by (simp add: Buttons_get_def Buttons_distinct_names)

lemma Buttons_get_mem: "Buttons_get n = Some b \<Longrightarrow> (n, b) \<in> set Buttons"
  by (simp add: Buttons_get_def map_of_SomeD)

lemma Buttons_entries_wf:
  "list_all (\<lambda>(n, b). button_name b = Some n \<and> (note_key b \<noteq> None \<or> automap_key b \<noteq> None) \<and>
       (note_key b = None \<or> automap_key b = None) \<and>
       (case note_key b of None \<Rightarrow> True | Some k \<Rightarrow> 0 \<le> k \<and> k < 256) \<and>
       (case automap_key b of None \<Rightarrow> True | Some k \<Rightarrow> 0 \<le> k \<and> k < 256)) Buttons"
  by (simp add: Buttons_table entry_defs)

lemma Buttons_entry:
  assumes "(n, b) \<in> set Buttons"
  shows "button_name b = Some n"
    and "note_key b \<noteq> None \<or> automap_key b \<noteq> None"
    and "note_key b = Some k \<Longrightarrow> 0 \<le> k \<and> k < 256"
    and "automap_key b = Some k \<Longrightarrow> 0 \<le> k \<and> k < 256"
proof -
  have "case (n, b) of (n, b) \<Rightarrow>
       button_name b = Some n \<and> (note_key b \<noteq> None \<or> automap_key b \<noteq> None) \<and>
       (note_key b = None \<or> automap_key b = None) \<and>
       (case note_key b of None \<Rightarrow> True | Some k \<Rightarrow> 0 \<le> k \<and> k < 256) \<and>
       (case automap_key b of None \<Rightarrow> True | Some k \<Rightarrow> 0 \<le> k \<and> k < 256)"
    using Buttons_entries_wf assms unfolding list_all_iff by (rule bspec)
  then show "button_name b = Some n"
    and "note_key b \<noteq> None \<or> automap_key b \<noteq> None"
    and "note_key b = Some k \<Longrightarrow> 0 \<le> k \<and> k < 256"
    and "automap_key b = Some k \<Longrightarrow> 0 \<le> k \<and> k < 256"
    by (simp_all split: option.splits)
qed

lemma Buttons_distinct: "distinct (map snd Buttons)"
proof -
  have "inj_on snd (set Buttons)"
  proof (rule inj_onI)
    fix e e' assume e: "e \<in> set Buttons" "e' \<in> set Buttons" "snd e = snd e'"
    have "button_name (snd e) = Some (fst e)"
      using e(1) by (intro Buttons_entry(1)) simp
    moreover have "button_name (snd e') = Some (fst e')"
      using e(2) by (intro Buttons_entry(1)) simp
    ultimately show "e = e'" using e(3) by (simp add: prod_eq_iff)
  qed
  moreover have "distinct Buttons"
    using Buttons_distinct_names by (simp add: distinct_map)
  ultimately show ?thesis by (simp add: distinct_map)
qed

lemma note_keys_distinct:
  "distinct (map (note_key \<circ> snd) (filter (\<lambda>e. note_key (snd e) \<noteq> None) Buttons))"
  by (simp add: Buttons_table entry_defs)

lemma automap_keys_distinct:
  "distinct (map (automap_key \<circ> snd) (filter (\<lambda>e. automap_key (snd e) \<noteq> None) Buttons))"
  by (simp add: Buttons_table entry_defs)

lemma note_key_unique:
  assumes "(n, b) \<in> set Buttons" "(n', b') \<in> set Buttons"
    and "note_key b = Some k" "note_key b' = Some k"
  shows "n' = n \<and> b' = b"
proof -
  let ?es = "filter (\<lambda>e. note_key (snd e) \<noteq> None) Buttons"
  have inj: "inj_on (note_key \<circ> snd) (set ?es)"
    using note_keys_distinct by (simp only: distinct_map)
  have mem: "(n, b) \<in> set ?es" "(n', b') \<in> set ?es" using assms by simp_all
  have "(note_key \<circ> snd) (n', b') = (note_key \<circ> snd) (n, b)" using assms(3,4) by simp
  from inj_onD[OF inj this mem(2) mem(1)] show ?thesis by simp
qed

lemma automap_key_unique:
  assumes "(n, b) \<in> set Buttons" "(n', b') \<in> set Buttons"
    and "automap_key b = Some k" "automap_key b' = Some k"
  shows "n' = n \<and> b' = b"
proof -
  let ?es = "filter (\<lambda>e. automap_key (snd e) \<noteq> None) Buttons"
  have inj: "inj_on (automap_key \<circ> snd) (set ?es)"
    using automap_keys_distinct by (simp only: distinct_map)
  have mem: "(n, b) \<in> set ?es" "(n', b') \<in> set ?es" using assms by simp_all
  have "(automap_key \<circ> snd) (n', b') = (automap_key \<circ> snd) (n, b)" using assms(3,4) by simp
  from inj_onD[OF inj this mem(2) mem(1)] show ?thesis by simp
qed

lemma Object_keys_set: "set (Object_keys obj) = fst ` set obj"
  by (auto simp: Object_keys_def)

lemma find_unique:
  assumes "x \<in> set xs" "P x" "\<forall>y\<in>set xs. P y \<longrightarrow> y = x"
  shows "find P xs = Some x"
  using assms
proof (induction xs)
  case Nil
  then show ?case by simp
next
  case (Cons a xs)
  show ?case
  proof (cases "P a")
    case True
    with Cons.prems(3) have "a = x" by simp
    with True show ?thesis by simp
  next
    case False
    with Cons.prems(1,2) have "x \<in> set xs" by auto
    moreover have "\<forall>y\<in>set xs. P y \<longrightarrow> y = x" using Cons.prems(3) by simp
    ultimately have "find P xs = Some x" using Cons.IH Cons.prems(2) by blast
    with False show ?thesis by simp
  qed
qed

lemma findButton_note:
  assumes "(n, b) \<in> set Buttons" "note_key b = Some k"
  shows "findButton [0x90, word_of_int k, v] = Some b"
proof -
  let ?P = "\<lambda>i. case Buttons_get i of None \<Rightarrow> False
                | Some b' \<Rightarrow> note_key b' = Some (uint (word_of_int k :: byte))"
  have k: "uint (word_of_int k :: byte) = k"
    using Buttons_entry(3)[OF assms] by (simp add: uint_word_of_int)
  have "n \<in> set (Object_keys Buttons)"
    unfolding Object_keys_set using assms(1) by (rule image_eqI[rotated]) simp
  moreover have "?P n"
    using assms(2) Buttons_get_entry[OF assms(1)] by (simp add: k)
  moreover have "\<forall>y\<in>set (Object_keys Buttons). ?P y \<longrightarrow> y = n"
  proof (intro ballI impI)
    fix y assume py: "?P y"
    then obtain b' where b': "Buttons_get y = Some b'" "note_key b' = Some k"
      by (auto simp: k split: option.splits)
    then have "(y, b') \<in> set Buttons" by (simp add: Buttons_get_mem)
    with note_key_unique[OF assms(1) this assms(2) b'(2)] show "y = n" by simp
  qed
  ultimately have "find ?P (Object_keys Buttons) = Some n"
    by (rule find_unique)
  moreover have "(\<lambda>i. case Buttons_get i of None \<Rightarrow> False
        | Some b' \<Rightarrow> (if [0x90, word_of_int k, v] ! 0 = (0x90 :: byte) then note_key b' else automap_key b')
                    = Some (uint ([0x90, word_of_int k, v] ! 1))) = ?P"
    by (rule ext) (simp split: option.splits)
  ultimately show ?thesis
    using Buttons_get_entry[OF assms(1)] by (simp add: findButton_def)
qed

lemma findButton_registry:
  "findButton data = Some b \<Longrightarrow> \<exists>n. (n, b) \<in> set Buttons"
  unfolding findButton_def by (auto split: option.splits dest: Buttons_get_mem)

section \<open>Ordered lists of buttons\<close>

lemma lookups_permutation:
  assumes al: "distinct (map fst al)" "distinct (map snd al)"
    and ks: "distinct ks" "set ks = fst ` set al"
  shows "\<exists>bs. map (map_of al) ks = map Some bs \<and> length bs = length al \<and>
              distinct bs \<and> set bs = snd ` set al"
proof -
  define bs where "bs = map (\<lambda>k. the (map_of al k)) ks"
  have found: "map_of al k = Some (the (map_of al k))" if "k \<in> set ks" for k
  proof (cases "map_of al k")
    case None
    with that ks(2) show ?thesis by (simp add: map_of_eq_None_iff)
  next
    case (Some v)
    then show ?thesis by simp
  qed
  have lookups: "map (map_of al) ks = map Some bs"
    unfolding bs_def map_map
  proof (rule map_cong[OF refl])
    fix k assume "k \<in> set ks"
    then show "map_of al k = (Some \<circ> (\<lambda>k. the (map_of al k))) k"
      unfolding o_apply by (rule found)
  qed
  have "length ks = card (set ks)" using ks(1) by (simp add: distinct_card)
  also have "\<dots> = card (set (map fst al))" using ks(2) by simp
  also have "\<dots> = length al" using distinct_card[OF al(1)] by simp
  finally have len: "length bs = length al" by (simp add: bs_def)
  have elems: "set bs = snd ` set al"
  proof (intro equalityI subsetI)
    fix v assume "v \<in> set bs"
    then obtain k where k: "k \<in> set ks" "v = the (map_of al k)" by (auto simp: bs_def)
    with found[OF k(1)] have "map_of al k = Some v" by simp
    then have "(k, v) \<in> set al" by (rule map_of_SomeD)
    then show "v \<in> snd ` set al" by force
  next
    fix v assume "v \<in> snd ` set al"
    then obtain k where kv: "(k, v) \<in> set al" by auto
    then have "map_of al k = Some v" using al(1) by simp
    moreover have "k \<in> set ks" using kv ks(2) by force
    ultimately show "v \<in> set bs" by (force simp: bs_def)
  qed
  have "card (set bs) = card (set (map snd al))" using elems by simp
  also have "\<dots> = length bs" using distinct_card[OF al(2)] len by simp
  finally have "distinct bs" by (rule card_distinct)
  with lookups len elems show ?thesis by blast
qed

lemma getOrderedButtons_physical:
  "cacheConsistent s \<Longrightarrow>
   fst (getOrderedButtons ''physical'' s) = Some (map Buttons_get physicalNames)"
  by (auto simp: getOrderedButtons_def cacheConsistent_def Let_def split: option.splits)

lemma getOrderedButtons_forBatch:
  "cacheConsistent s \<Longrightarrow>
   fst (getOrderedButtons ''forBatch'' s) = Some (map Buttons_get forBatchNames)"
  by (auto simp: getOrderedButtons_def cacheConsistent_def Let_def split: option.splits)

lemma getOrderedButtons_consistent:
  "cacheConsistent s \<Longrightarrow> cacheConsistent (snd (getOrderedButtons order s))"
  by (auto simp: getOrderedButtons_def cacheConsistent_def Let_def update_conv'
           split: option.splits)

lemma getOrderedButtons_frame:
  "outputPort (snd (getOrderedButtons order s)) = outputPort s"
  "calls (snd (getOrderedButtons order s)) = calls s"
  "ledBuffers (snd (getOrderedButtons order s)) = ledBuffers s"
  "updatingBuffer (snd (getOrderedButtons order s)) = updatingBuffer s"
  "listeners_led_changed (snd (getOrderedButtons order s)) = listeners_led_changed s"
  by (auto simp: getOrderedButtons_def Let_def split: option.splits)

lemma forBatch_lookups: "map Buttons_get forBatchNames = map Some (map snd Buttons)"
proof -
  have "map (map_of Buttons) (map fst Buttons) = map Some (map snd Buttons)"
    using Buttons_distinct_names by (auto simp: map_of_eq_Some_iff)
  then show ?thesis by (simp add: forBatchNames_registry Buttons_get_def[abs_def])
qed

lemma physical_lookups:
  "\<exists>bs. map Buttons_get physicalNames = map Some bs \<and> length bs = 80 \<and>
        distinct bs \<and> set bs = snd ` set Buttons"
  using lookups_permutation[OF Buttons_distinct_names Buttons_distinct physicalNames_distinct]
    physicalNames_set
  by (simp add: Buttons_get_def[abs_def] Buttons_length)

lemma physical_top:
  "map (map_option button_name) (take 8 (map Buttons_get physicalNames)) =
   map (Some \<circ> Some) [''Up'', ''Down'', ''Left'', ''Right'', ''Session'', ''User1'', ''User2'', ''Mixer'']"
proof -
  have "take 8 physicalNames =
          [''Up'', ''Down'', ''Left'', ''Right'', ''Session'', ''User1'', ''User2'', ''Mixer'']"
    by (simp add: physicalNames_def)
  then have "take 8 (map Buttons_get physicalNames) =
          map Buttons_get [''Up'', ''Down'', ''Left'', ''Right'', ''Session'', ''User1'', ''User2'', ''Mixer'']"
    by (simp only: take_map)
  then show ?thesis
    by (simp add: Buttons_get_def Buttons_table entry_defs)
qed

lemma forBatch_grid_table:
  "map (\<lambda>b. (button_x b, button_y b)) (take 64 (map snd Buttons)) =
   map (\<lambda>i. (Some (int (i mod 8)), Some (int (i div 8)))) [0..<64]"
  by code_simp

lemma forBatch_grid:
  assumes "i < 64"
  shows "button_x (map snd Buttons ! i) = Some (int (i mod 8)) \<and>
         button_y (map snd Buttons ! i) = Some (int (i div 8))"
proof -
  let ?l = "map (\<lambda>b. (button_x b, button_y b)) (take 64 (map snd Buttons))"
  have "?l ! i = (button_x (map snd Buttons ! i), button_y (map snd Buttons ! i))"
    using assms by (simp add: Buttons_length)
  moreover have "?l ! i = (Some (int (i mod 8)), Some (int (i div 8)))"
    unfolding forBatch_grid_table using assms by simp
  ultimately show ?thesis by simp
qed

lemma forBatch_tail:
  "map button_name (drop 64 (map snd Buttons)) =
   map Some [''Vol'', ''Pan'', ''SendA'', ''SendB'', ''Stop'', ''TrackOn'', ''Solo'', ''Arm'',
             ''Up'', ''Down'', ''Left'', ''Right'', ''Session'', ''User1'', ''User2'', ''Mixer'']"
  by (simp add: Buttons_table entry_defs)

text \<open>
  Claim C1, amended. Whenever the cache is consistent (in particular in every new object),
  \<open>getOrderedButtons('physical')\<close> and \<open>getOrderedButtons('forBatch')\<close> each return
  every button of the registry exactly once; the registry has 80 buttons (64 grid, 8 side,
  8 top), so each list has 80 elements. The physical order begins with the 8 top buttons
  Up, Down, Left, Right, Session, User1, User2, Mixer; the batch order has the grid button
  with \<open>x = i mod 8\<close> and \<open>y = i div 8\<close> at each index \<open>i < 64\<close> (row-major, y outer),
  followed by the 8 side buttons and then the 8 top buttons.
\<close>

theorem getOrderedButtons_orders:
  assumes "cacheConsistent s"
  shows "\<exists>physical batch.
           fst (getOrderedButtons ''physical'' s) = Some (map Some physical) \<and>
           fst (getOrderedButtons ''forBatch'' s) = Some (map Some batch) \<and>
           length Buttons = 80 \<and> distinct (map snd Buttons) \<and>
           length physical = 80 \<and> distinct physical \<and> set physical = snd ` set Buttons \<and>
           length batch = 80 \<and> distinct batch \<and> set batch = snd ` set Buttons \<and>
           map button_name (take 8 physical) =
             map Some [''Up'', ''Down'', ''Left'', ''Right'', ''Session'', ''User1'', ''User2'',
                       ''Mixer''] \<and>
           (\<forall>i<64. button_x (batch ! i) = Some (int (i mod 8)) \<and>
                    button_y (batch ! i) = Some (int (i div 8))) \<and>
           map button_name (drop 64 batch) =
             map Some [''Vol'', ''Pan'', ''SendA'', ''SendB'', ''Stop'', ''TrackOn'', ''Solo'',
                       ''Arm'', ''Up'', ''Down'', ''Left'', ''Right'', ''Session'', ''User1'',
                       ''User2'', ''Mixer'']"
proof -
  obtain physical where p: "map Buttons_get physicalNames = map Some physical"
      "length physical = 80" "distinct physical" "set physical = snd ` set Buttons"
    using physical_lookups by blast
  have "map (map_option button_name) (take 8 (map Some physical)) =
        map (Some \<circ> Some) [''Up'', ''Down'', ''Left'', ''Right'', ''Session'', ''User1'', ''User2'', ''Mixer'']"
    using physical_top unfolding p(1) .
  then have "map Some (map button_name (take 8 physical)) =
        map Some (map Some [''Up'', ''Down'', ''Left'', ''Right'', ''Session'', ''User1'', ''User2'', ''Mixer''])"
    by (simp only: take_map map_map o_def option.map)
  then have top: "map button_name (take 8 physical) =
        map Some [''Up'', ''Down'', ''Left'', ''Right'', ''Session'', ''User1'', ''User2'', ''Mixer'']"
    by (simp only: inj_map_eq_map[OF inj_Some])
  have "fst (getOrderedButtons ''physical'' s) = Some (map Some physical)"
    using getOrderedButtons_physical[OF assms] p(1) by simp
  moreover have "fst (getOrderedButtons ''forBatch'' s) = Some (map Some (map snd Buttons))"
    using getOrderedButtons_forBatch[OF assms] forBatch_lookups by simp
  moreover have "length (map snd Buttons) = 80" by (simp add: Buttons_length)
  moreover have "set (map snd Buttons) = snd ` set Buttons" by simp
  moreover have "\<forall>i<64. button_x (map snd Buttons ! i) = Some (int (i mod 8)) \<and>
                    button_y (map snd Buttons ! i) = Some (int (i div 8))"
    using forBatch_grid by blast
  ultimately show ?thesis
    using p(2-4) top Buttons_length Buttons_distinct forBatch_tail by blast
qed

text \<open>The theorem applies to a new object, whose cache is empty.\<close>

theorem getOrderedButtons_orders_witness:
  "\<exists>physical batch.
           fst (getOrderedButtons ''physical'' constructor) = Some (map Some physical) \<and>
           fst (getOrderedButtons ''forBatch'' constructor) = Some (map Some batch) \<and>
           length Buttons = 80 \<and> distinct (map snd Buttons) \<and>
           length physical = 80 \<and> distinct physical \<and> set physical = snd ` set Buttons \<and>
           length batch = 80 \<and> distinct batch \<and> set batch = snd ` set Buttons \<and>
           map button_name (take 8 physical) =
             map Some [''Up'', ''Down'', ''Left'', ''Right'', ''Session'', ''User1'', ''User2'',
                       ''Mixer''] \<and>
           (\<forall>i<64. button_x (batch ! i) = Some (int (i mod 8)) \<and>
                    button_y (batch ! i) = Some (int (i div 8))) \<and>
           map button_name (drop 64 batch) =
             map Some [''Vol'', ''Pan'', ''SendA'', ''SendB'', ''Stop'', ''TrackOn'', ''Solo'',
                       ''Arm'', ''Up'', ''Down'', ''Left'', ''Right'', ''Session'', ''User1'',
                       ''User2'', ''Mixer'']"
proof -
  have "cacheConsistent constructor"
    by (simp add: cacheConsistent_def constructor_def)
  then show ?thesis by (rule getOrderedButtons_orders)
qed

text \<open>
  Claim C1 as stated gives the lists 72 buttons. On a new object both lists have 80
  elements, not 72.
\<close>

theorem getOrderedButtons_72_counterexample:
  "map_option length (fst (getOrderedButtons ''physical'' constructor)) = Some 80 \<and>
   map_option length (fst (getOrderedButtons ''forBatch'' constructor)) = Some 80 \<and>
   map_option length (fst (getOrderedButtons ''physical'' constructor)) \<noteq> Some 72 \<and>
   map_option length (fst (getOrderedButtons ''forBatch'' constructor)) \<noteq> Some 72"
proof -
  have c: "cacheConsistent constructor"
    by (simp add: cacheConsistent_def constructor_def)
  have "length physicalNames = 80" by (simp add: physicalNames_table)
  moreover have "length forBatchNames = 80" by (simp add: forBatchNames_registry Buttons_length)
  ultimately show ?thesis
    by (simp add: getOrderedButtons_physical[OF c] getOrderedButtons_forBatch[OF c])
qed

section \<open>The velocity encoder\<close>

lemmas Colors_defs =
  Colors_Off_def Colors_GreenLow_def Colors_GreenMed_def Colors_Green_def Colors_RedLow_def
  Colors_RedMed_def Colors_Red_def Colors_OrangeMed_def Colors_Orange_def Colors_YellowMed_def
  Colors_Yellow_def Colors_AmberLow_def Colors_AmberMed_def Colors_Amber_def Colors_Lime_def
  Colors_OrangeRed_def

lemma palette_size: "length palette = 16 \<and> distinct palette"
  by (simp add: palette_def Colors_def Colors_defs colorGenerator_def)

lemma palette_intensities:
  assumes "C \<in> set palette"
  shows "\<exists>r g. color_r C = Some r \<and> color_g C = Some g \<and> 0 \<le> r \<and> r \<le> 3 \<and> 0 \<le> g \<and> g \<le> 3"
  using assms unfolding palette_def Colors_def
  by (auto simp: Colors_defs colorGenerator_def)

lemma velocity_of_object:
  assumes "color_r C = Some r" "color_g C = Some g"
  shows "colorToMIDIVelocity (JObject C) both off =
           Inr (Num ((if off then 8 else 0) + (if both then 12 else 0) + r + g * 16))"
  using assms by (simp add: colorToMIDIVelocity_def)

lemma velocity_of_palette:
  assumes "C \<in> set palette"
  shows "\<exists>v. colorToMIDIVelocity (JObject C) both off = Inr (Num v) \<and> 0 \<le> v \<and> v < 128"
proof -
  from palette_intensities[OF assms] obtain r g where
    rg: "color_r C = Some r" "color_g C = Some g" "0 \<le> r" "r \<le> 3" "0 \<le> g" "g \<le> 3"
    by blast
  then show ?thesis
    by (simp add: velocity_of_object[OF rg(1,2)])
qed

lemma velocity_error:
  "(colorToMIDIVelocity color both off = Inl e) \<longleftrightarrow>
     (e = Error ''Invalid color'' \<and>
      (\<not> truthy color \<or> typeof color \<noteq> ''object'' \<or> (prop_r color = None \<and> prop_g color = None)))"
  by (auto simp: colorToMIDIVelocity_def)

text \<open>
  Claim C3. For every color of the 16-entry palette and every pair of flags the encoder
  returns \<open>(clearOther ? 8 : 0) + (bothBuffers ? 12 : 0) + red + green * 16\<close>; being a
  function of its arguments it is deterministic. In particular Red encodes to 3 with the
  default flags and Off with \<open>bothBuffers\<close> alone to 12.
\<close>

theorem colorToMIDIVelocity_formula:
  assumes "C \<in> set palette"
  shows "(\<exists>r g. color_r C = Some r \<and> color_g C = Some g \<and>
            colorToMIDIVelocity (JObject C) bothBuffers clearOther =
              Inr (Num ((if clearOther then 8 else 0) + (if bothBuffers then 12 else 0)
                        + r + g * 16))) \<and>
         colorToMIDIVelocity (JObject Colors_Red) False False = Inr (Num 3) \<and>
         colorToMIDIVelocity (JObject Colors_Off) True False = Inr (Num 12)"
proof (intro conjI)
  from palette_intensities[OF assms] obtain r g where
    rg: "color_r C = Some r" "color_g C = Some g" by blast
  then show "\<exists>r g. color_r C = Some r \<and> color_g C = Some g \<and>
           colorToMIDIVelocity (JObject C) bothBuffers clearOther =
             Inr (Num ((if clearOther then 8 else 0) + (if bothBuffers then 12 else 0)
                       + r + g * 16))"
    using velocity_of_object by blast
  show "colorToMIDIVelocity (JObject Colors_Red) False False = Inr (Num 3)"
    by (simp add: colorToMIDIVelocity_def Colors_Red_def colorGenerator_def)
  show "colorToMIDIVelocity (JObject Colors_Off) True False = Inr (Num 12)"
    by (simp add: colorToMIDIVelocity_def Colors_Off_def colorGenerator_def)
qed

text \<open>The formula at the palette entry Orange (red 3, green 2) with \<open>clearOther\<close> alone.\<close>

theorem colorToMIDIVelocity_formula_witness:
  "Colors_Orange \<in> set palette \<and>
   colorToMIDIVelocity (JObject Colors_Orange) False True = Inr (Num 43) \<and>
   colorToMIDIVelocity (JObject Colors_Red) False False = Inr (Num 3) \<and>
   colorToMIDIVelocity (JObject Colors_Off) True False = Inr (Num 12)"
proof -
  have mem: "Colors_Orange \<in> set palette"
    by (simp add: palette_def Colors_def)
  from colorToMIDIVelocity_formula[OF mem, of False True]
  show ?thesis using mem
    by (simp add: Colors_Orange_def colorGenerator_def)
qed

text \<open>
  Claim C2 says that with both flags requested the encoder yields the contribution of
  \<open>affectBothBuffers\<close> alone, 12, and the documentation of \<open>setSingleLED\<close> says the same
  (\<open>changeInBothBuffers\<close> "overrides \<open>turnOffInOtherBuffer\<close> if true"). The code adds the two
  contributions: for Off with both flags it returns 20, while with \<open>changeInBothBuffers\<close>
  alone it returns 12.
\<close>

theorem colorToMIDIVelocity_both_flags_add:
  "colorToMIDIVelocity (JObject Colors_Off) True True = Inr (Num 20) \<and>
   colorToMIDIVelocity (JObject Colors_Off) True False = Inr (Num 12) \<and>
   colorToMIDIVelocity (JObject Colors_Off) True True \<noteq>
     colorToMIDIVelocity (JObject Colors_Off) True False"
  by (simp add: colorToMIDIVelocity_def Colors_Off_def colorGenerator_def)

text \<open>The value the code computes for Off with both flags.\<close>

theorem colorToMIDIVelocity_both_flags_add_witness:
  "colorToMIDIVelocity (JObject Colors_Off) True True = Inr (Num 20)"
  by (rule conjunct1[OF colorToMIDIVelocity_both_flags_add])

section \<open>Sending and storing\<close>

lemma midiSend_connected:
  "outputPort s = Some sent \<Longrightarrow>
   midiSend arguments s = (Inr (), s\<lparr>outputPort := Some (sent @ [map ToUint8 arguments])\<rparr>)"
  by (simp add: midiSend_def)

lemma midiSend_error:
  "fst (midiSend arguments s) = Inl e \<Longrightarrow> e = TypeError \<and> snd (midiSend arguments s) = s"
  by (auto simp: midiSend_def split: option.splits)

lemma setLed_error:
  "fst (setLed key color s) = Inl e \<Longrightarrow> e = TypeError \<and> snd (setLed key color s) = s"
  by (auto simp: setLed_def split: option.splits prod.splits if_splits)

lemma setLed_ready:
  assumes "buffersReady s"
  shows "\<exists>bufs. setLed key color s = (Inr (), s\<lparr>ledBuffers := Some bufs\<rparr>) \<and>
           (\<forall>n k. bufferAt (Some bufs) n k =
                    (if updatingBuffer s = Some n \<and> k = key then Some color else ledAt s n k))"
proof -
  from assms obtain buffer0 buffer1 where b: "ledBuffers s = Some (buffer0, buffer1)"
    by (auto simp: buffersReady_def)
  from assms consider "updatingBuffer s = Some 0" | "updatingBuffer s = Some 1"
    by (auto simp: buffersReady_def)
  then show ?thesis
  proof cases
    case 1
    then show ?thesis
      using b by (intro exI[of _ "(AList.update key color buffer0, buffer1)"])
                 (simp add: setLed_def ledAt_def bufferAt_def update_conv')
  next
    case 2
    then show ?thesis
      using b by (intro exI[of _ "(buffer0, AList.update key color buffer1)"])
                 (simp add: setLed_def ledAt_def bufferAt_def update_conv')
  qed
qed

lemma dispatch_led_changed:
  "dispatchListener led_changed None s = s\<lparr>calls := calls s @ ledChangedCalls s\<rparr>"
  by (simp add: dispatchListener_def ledChangedCalls_def)

section \<open>Setting one LED\<close>

text \<open>What \<open>setSingleLED\<close> does for a button of the registry once the color is encoded.\<close>

lemma setSingleLED_known:
  assumes B: "(n, B) \<in> set Buttons"
    and v: "colorToMIDIVelocity color both off = Inr v"
    and out: "outputPort s = Some sent"
    and ready: "buffersReady s"
  shows "\<exists>bufs. setSingleLED (JObject B) color both off s =
           (Inr (), s\<lparr>outputPort :=
                          Some (sent @ [[if note_key B \<noteq> None then 0x90 else 0xB0,
                                         ToUint8 (map_option Num
                                           (if note_key B \<noteq> None then note_key B
                                            else automap_key B)),
                                         ToUint8 (Some v)]]),
                       ledBuffers := Some bufs,
                       calls := calls s @ ledChangedCalls s\<rparr>) \<and>
           (\<forall>m k. bufferAt (Some bufs) m k =
                    (if updatingBuffer s = Some m \<and> k = n then Some color else ledAt s m k)) \<and>
           (ledAt s (the (updatingBuffer s)) n = Some color \<longrightarrow> Some bufs = ledBuffers s)"
proof -
  let ?s1 = "s\<lparr>outputPort :=
                 Some (sent @ [[if note_key B \<noteq> None then 0x90 else 0xB0,
                                ToUint8 (map_option Num
                                  (if note_key B \<noteq> None then note_key B else automap_key B)),
                                ToUint8 (Some v)]])\<rparr>"
  have name: "button_name B = Some n" and keys: "note_key B \<noteq> None \<or> automap_key B \<noteq> None"
    using Buttons_entry(1,2)[OF B] by simp_all
  have ready1: "buffersReady ?s1" using ready by (simp add: buffersReady_def)
  from setLed_ready[OF ready1, of n color] obtain bufs where
    bufs: "setLed n color ?s1 = (Inr (), ?s1\<lparr>ledBuffers := Some bufs\<rparr>)"
      "\<forall>m k. bufferAt (Some bufs) m k =
               (if updatingBuffer ?s1 = Some m \<and> k = n then Some color else ledAt ?s1 m k)"
    by blast
  have send: "midiSend [Some (Num (if note_key B \<noteq> None then 0x90 else 0xB0)),
                        map_option Num (if note_key B \<noteq> None then note_key B else automap_key B),
                        Some v] s = (Inr (), ?s1)"
    by (simp add: midiSend_connected[OF out])
  have run: "setSingleLED (JObject B) color both off s =
               (Inr (), dispatchListener led_changed None (?s1\<lparr>ledBuffers := Some bufs\<rparr>))"
  proof (cases "note_key B")
    case None
    with keys obtain k where "automap_key B = Some k" by auto
    with None name v send bufs(1) show ?thesis
      by (simp add: setSingleLED_def Let_def)
  next
    case (Some k)
    with name v send bufs(1) show ?thesis
      by (simp add: setSingleLED_def Let_def)
  qed
  have triv: "Some bufs = ledBuffers s" if "ledAt s (the (updatingBuffer s)) n = Some color"
  proof -
    from ready obtain b0 b1 where b: "ledBuffers s = Some (b0, b1)"
      by (auto simp: buffersReady_def)
    from ready consider "updatingBuffer s = Some 0" | "updatingBuffer s = Some 1"
      by (auto simp: buffersReady_def)
    then show ?thesis
    proof cases
      case 1
      with that b have "map_of b0 n = Some color" by (simp add: ledAt_def bufferAt_def)
      then have "AList.update n color b0 = b0" by (rule update_triv)
      moreover have "Some bufs = ledBuffers (snd (setLed n color ?s1))"
        using bufs(1) by simp
      ultimately show ?thesis using b 1 by (simp add: setLed_def)
    next
      case 2
      with that b have "map_of b1 n = Some color" by (simp add: ledAt_def bufferAt_def)
      then have "AList.update n color b1 = b1" by (rule update_triv)
      moreover have "Some bufs = ledBuffers (snd (setLed n color ?s1))"
        using bufs(1) by simp
      ultimately show ?thesis using b 2 by (simp add: setLed_def)
    qed
  qed
  show ?thesis
    using run bufs(2) triv
    by (intro exI[of _ bufs]) (simp add: dispatch_led_changed ledAt_def ledChangedCalls_def)
qed


lemma setSingleLED_InvalidColor:
  assumes B: "(n, B) \<in> set Buttons"
  shows "(fst (setSingleLED (JObject B) color both off s) = Inl (Error ''Invalid color'')) \<longleftrightarrow>
         (\<exists>e. colorToMIDIVelocity color both off = Inl e)"
proof (cases "colorToMIDIVelocity color both off")
  case (Inl e)
  then have "e = Error ''Invalid color''" by (simp add: velocity_error)
  with Inl Buttons_entry(2)[OF B] show ?thesis by (auto simp: setSingleLED_def)
next
  case (Inr v)
  then have "fst (setSingleLED (JObject B) color both off s) \<noteq> Inl (Error ''Invalid color'')"
    by (auto simp: setSingleLED_def Let_def midiSend_def setLed_def
             split: if_splits sum.splits option.splits prod.splits)
  with Inr show ?thesis by simp
qed

section \<open>Reset\<close>

lemma reset_buffers:
  "map_of (fst (foldl (\<lambda>(buffer0, buffer1) buttonName.
                         (AList.update buttonName v buffer0, AList.update buttonName v buffer1))
                      (a0, a1) ks)) k = (if k \<in> set ks then Some v else map_of a0 k) \<and>
   map_of (snd (foldl (\<lambda>(buffer0, buffer1) buttonName.
                         (AList.update buttonName v buffer0, AList.update buttonName v buffer1))
                      (a0, a1) ks)) k = (if k \<in> set ks then Some v else map_of a1 k)"
proof (induction ks arbitrary: a0 a1)
  case Nil
  show ?case by simp
next
  case (Cons x ks)
  show ?case
    using Cons.IH[of "AList.update x v a0" "AList.update x v a1"]
    by (simp add: update_conv')
qed

lemma reset_connected:
  assumes "outputPort s = Some sent"
  shows "\<exists>bufs. reset s =
           (Inr (), s\<lparr>outputPort := Some (sent @ [[0xB0, 0, 0]]),
                       calls := calls s @ ledChangedCalls s,
                       ledBuffers := Some bufs,
                       flashingBuffers := JNumber (Num 0),
                       displayingBuffer := Some 0,
                       updatingBuffer := Some 0\<rparr>) \<and>
           (\<forall>n name. bufferAt (Some bufs) n name =
              (if (n = 0 \<or> n = 1) \<and> name \<in> fst ` set Buttons then Some (JObject Colors_Off)
               else None))"
proof -
  let ?bufs = "foldl (\<lambda>(buffer0, buffer1) buttonName.
                        (AList.update buttonName (JObject Colors_Off) buffer0,
                         AList.update buttonName (JObject Colors_Off) buffer1))
                     ([], []) (Object_keys Buttons)"
  have "reset s =
           (Inr (), s\<lparr>outputPort := Some (sent @ [[0xB0, 0, 0]]),
                       calls := calls s @ ledChangedCalls s,
                       ledBuffers := Some ?bufs,
                       flashingBuffers := JNumber (Num 0),
                       displayingBuffer := Some 0,
                       updatingBuffer := Some 0\<rparr>)"
    using assms
    by (simp add: reset_def midiSend_def dispatchListener_def ledChangedCalls_def)
  moreover have "bufferAt (Some ?bufs) n name =
              (if (n = 0 \<or> n = 1) \<and> name \<in> fst ` set Buttons then Some (JObject Colors_Off)
               else None)" for n name
    using reset_buffers[of "JObject Colors_Off" "[]" "[]" "Object_keys Buttons" name]
    by (simp add: bufferAt_def Object_keys_set split_beta)
  ultimately show ?thesis by blast
qed

lemma reset_ready:
  assumes "outputPort s = Some sent"
  shows "buffersReady (snd (reset s))" "outputPort (snd (reset s)) = Some (sent @ [[0xB0, 0, 0]])"
    "updatingBuffer (snd (reset s)) = Some 0"
    "listeners_led_changed (snd (reset s)) = listeners_led_changed s"
    "cachedOrderedButtons (snd (reset s)) = cachedOrderedButtons s"
  using reset_connected[OF assms] by (auto simp: buffersReady_def)

text \<open>
  Claim C6. On a connected object \<open>reset()\<close> sends the message \<open>[0xB0, 0, 0]\<close>; afterwards
  every button of the registry has the entry Off in both LED buffers, the displaying and the
  updating buffer are buffer 0, flashing is off, and every LED-changed listener has been
  called exactly once.
\<close>

theorem reset_effect:
  assumes "outputPort s = Some sent"
  shows "\<exists>s'. reset s = (Inr (), s') \<and>
           outputPort s' = Some (sent @ [[0xB0, 0, 0]]) \<and>
           (\<forall>(name, b) \<in> set Buttons.
              ledAt s' 0 name = Some (JObject Colors_Off) \<and>
              ledAt s' 1 name = Some (JObject Colors_Off)) \<and>
           displayingBuffer s' = Some 0 \<and> updatingBuffer s' = Some 0 \<and>
           flashingBuffers s' = JNumber (Num 0) \<and> \<not> truthy (flashingBuffers s') \<and>
           calls s' = calls s @ ledChangedCalls s"
proof -
  from reset_connected[OF assms] obtain bufs where
    r: "reset s =
           (Inr (), s\<lparr>outputPort := Some (sent @ [[0xB0, 0, 0]]),
                       calls := calls s @ ledChangedCalls s,
                       ledBuffers := Some bufs,
                       flashingBuffers := JNumber (Num 0),
                       displayingBuffer := Some 0,
                       updatingBuffer := Some 0\<rparr>)"
    and b: "\<forall>n name. bufferAt (Some bufs) n name =
              (if (n = 0 \<or> n = 1) \<and> name \<in> fst ` set Buttons then Some (JObject Colors_Off)
               else None)"
    by blast
  have "\<forall>(name, b) \<in> set Buttons. bufferAt (Some bufs) 0 name = Some (JObject Colors_Off) \<and>
          bufferAt (Some bufs) 1 name = Some (JObject Colors_Off)"
    using b by force
  then show ?thesis
    unfolding r by (simp add: ledAt_def)
qed

text \<open>The theorem applies to a connected object with one listener of each kind.\<close>

theorem reset_effect_witness:
  "\<exists>s'. reset connectedPad = (Inr (), s') \<and>
         outputPort s' = Some [[0xB0, 0, 0]] \<and>
         (\<forall>(name, b) \<in> set Buttons.
            ledAt s' 0 name = Some (JObject Colors_Off) \<and>
            ledAt s' 1 name = Some (JObject Colors_Off)) \<and>
         displayingBuffer s' = Some 0 \<and> updatingBuffer s' = Some 0 \<and>
         flashingBuffers s' = JNumber (Num 0) \<and> \<not> truthy (flashingBuffers s') \<and>
         calls s' = [(3, None)]"
proof -
  have "outputPort connectedPad = Some []"
    by (simp add: connectedPad_def)
  from reset_effect[OF this] show ?thesis
    by (simp add: connectedPad_def constructor_def ledChangedCalls_def)
qed

lemma readyPad_facts:
  "outputPort readyPad = Some [[0xB0, 0, 0]]" "buffersReady readyPad"
  "updatingBuffer readyPad = Some 0" "listeners_led_changed readyPad = [3]"
  "cacheConsistent readyPad"
proof -
  have c: "outputPort connectedPad = Some []" by (simp add: connectedPad_def)
  show "outputPort readyPad = Some [[0xB0, 0, 0]]" "buffersReady readyPad"
    "updatingBuffer readyPad = Some 0"
    using reset_ready(1-3)[OF c] by (simp_all add: readyPad_def)
  show "listeners_led_changed readyPad = [3]"
    using reset_ready(4)[OF c] by (simp add: readyPad_def connectedPad_def)
  show "cacheConsistent readyPad"
    using reset_ready(5)[OF c]
    by (simp add: readyPad_def connectedPad_def constructor_def cacheConsistent_def)
qed

lemma button_00: "(''00'', snd (gridButton ''00'' 0 0)) \<in> set Buttons"
  by (simp add: Buttons_table gridButton_def)

lemma Red_in_palette: "Colors_Red \<in> set palette"
  by (simp add: palette_def Colors_def)

text \<open>
  Claim C5. On an object that is connected and has its LED buffers (as after \<open>reset\<close>), for
  every button \<open>B\<close> of the registry and every palette color \<open>C\<close>, \<open>setSingleLED(B, C)\<close> with the
  default flags succeeds and sets the entry of \<open>B\<close> in the updating buffer to \<open>C\<close>; every other
  entry of the updating buffer and every entry of the other buffer stay as they were, and each
  LED-changed listener is called exactly once.
\<close>

theorem setSingleLED_frame:
  assumes "(n, B) \<in> set Buttons" and "C \<in> set palette"
    and "outputPort s \<noteq> None" and "buffersReady s" and "updatingBuffer s = Some u"
  shows "\<exists>s'. setSingleLED (JObject B) (JObject C) False False s = (Inr (), s') \<and>
           ledAt s' u n = Some (JObject C) \<and>
           (\<forall>m. m \<noteq> n \<longrightarrow> ledAt s' u m = ledAt s u m) \<and>
           (\<forall>u' m. u' \<noteq> u \<longrightarrow> ledAt s' u' m = ledAt s u' m) \<and>
           updatingBuffer s' = Some u \<and> displayingBuffer s' = displayingBuffer s \<and>
           calls s' = calls s @ ledChangedCalls s"
proof -
  from assms(3) obtain sent where out: "outputPort s = Some sent" by auto
  from velocity_of_palette[OF assms(2), of False False] obtain v where
    v: "colorToMIDIVelocity (JObject C) False False = Inr (Num v)" by blast
  from setSingleLED_known[OF assms(1) v out assms(4)] obtain bufs out' where
    run: "setSingleLED (JObject B) (JObject C) False False s =
            (Inr (), s\<lparr>outputPort := out', ledBuffers := Some bufs,
                        calls := calls s @ ledChangedCalls s\<rparr>)"
    and leds: "\<forall>m k. bufferAt (Some bufs) m k =
                 (if updatingBuffer s = Some m \<and> k = n then Some (JObject C) else ledAt s m k)"
    by blast
  show ?thesis
    unfolding run using leds assms(5) by (simp add: ledAt_def)
qed

text \<open>The theorem at button \<open>'00'\<close> and Red, on the connected object after \<open>reset\<close>.\<close>

theorem setSingleLED_frame_witness:
  "\<exists>s'. setSingleLED (JObject (snd (gridButton ''00'' 0 0))) (JObject Colors_Red) False False
           readyPad = (Inr (), s') \<and>
         ledAt s' 0 ''00'' = Some (JObject Colors_Red) \<and>
         (\<forall>m. m \<noteq> ''00'' \<longrightarrow> ledAt s' 0 m = ledAt readyPad 0 m) \<and>
         (\<forall>u' m. u' \<noteq> 0 \<longrightarrow> ledAt s' u' m = ledAt readyPad u' m) \<and>
         updatingBuffer s' = Some 0 \<and> displayingBuffer s' = displayingBuffer readyPad \<and>
         calls s' = calls readyPad @ [(3, None)]"
proof -
  have "outputPort readyPad \<noteq> None" by (simp add: readyPad_facts)
  from setSingleLED_frame[OF button_00 Red_in_palette this readyPad_facts(2,3)]
  show ?thesis by (simp add: ledChangedCalls_def readyPad_facts)
qed

text \<open>
  Claim C7, amended. The velocity encoder fails, and then with the error "Invalid color", if
  and only if the color argument is falsy, is not an object, or is an object that has neither
  an \<open>r\<close> nor a \<open>g\<close> property; \<open>setSingleLED\<close> on a button of the registry fails with that
  error under the same condition. Every entry of the palette is accepted, so a failure implies
  an argument outside the palette; an object outside the palette that has \<open>r\<close> or \<open>g\<close> is
  encoded without error.
\<close>

theorem InvalidColor_iff:
  "((colorToMIDIVelocity color both off = Inl (Error ''Invalid color'')) \<longleftrightarrow>
      (\<not> truthy color \<or> typeof color \<noteq> ''object'' \<or>
       (prop_r color = None \<and> prop_g color = None))) \<and>
   (\<forall>e. colorToMIDIVelocity color both off = Inl e \<longrightarrow> e = Error ''Invalid color'') \<and>
   (\<forall>C \<in> set palette. \<exists>v. colorToMIDIVelocity (JObject C) both off = Inr v) \<and>
   (\<forall>(n, B) \<in> set Buttons.
      (fst (setSingleLED (JObject B) color both off s) = Inl (Error ''Invalid color'')) \<longleftrightarrow>
      (\<not> truthy color \<or> typeof color \<noteq> ''object'' \<or>
       (prop_r color = None \<and> prop_g color = None)))"
proof (intro conjI allI impI ballI)
  show "(colorToMIDIVelocity color both off = Inl (Error ''Invalid color'')) \<longleftrightarrow>
      (\<not> truthy color \<or> typeof color \<noteq> ''object'' \<or>
       (prop_r color = None \<and> prop_g color = None))"
    by (simp add: velocity_error)
next
  fix e assume "colorToMIDIVelocity color both off = Inl e"
  then show "e = Error ''Invalid color''" by (simp add: velocity_error)
next
  fix C assume "C \<in> set palette"
  from velocity_of_palette[OF this] show "\<exists>v. colorToMIDIVelocity (JObject C) both off = Inr v"
    by blast
next
  fix e assume e: "e \<in> set Buttons"
  obtain n B where nB: "e = (n, B)" by (cases e)
  have "(fst (setSingleLED (JObject B) color both off s) = Inl (Error ''Invalid color'')) \<longleftrightarrow>
        (\<exists>e. colorToMIDIVelocity color both off = Inl e)"
    using e nB setSingleLED_InvalidColor by blast
  also have "\<dots> \<longleftrightarrow> (\<not> truthy color \<or> typeof color \<noteq> ''object'' \<or>
       (prop_r color = None \<and> prop_g color = None))"
    by (auto simp: velocity_error)
  finally show "case e of (n, B) \<Rightarrow>
      (fst (setSingleLED (JObject B) color both off s) = Inl (Error ''Invalid color'')) \<longleftrightarrow>
      (\<not> truthy color \<or> typeof color \<noteq> ''object'' \<or>
       (prop_r color = None \<and> prop_g color = None))"
    using nB by simp
qed

text \<open>
  The theorem at a string passed as the color: the encoder and \<open>setSingleLED\<close> on button
  \<open>'00'\<close> fail with "Invalid color", while the palette entry Red is encoded.
\<close>

theorem InvalidColor_iff_witness:
  "colorToMIDIVelocity (JString ''red'') False False = Inl (Error ''Invalid color'') \<and>
   fst (setSingleLED (JObject (snd (gridButton ''00'' 0 0))) (JString ''red'') False False
          readyPad) = Inl (Error ''Invalid color'') \<and>
   (\<exists>v. colorToMIDIVelocity (JObject Colors_Red) False False = Inr v)"
proof -
  note t = InvalidColor_iff[of "JString ''red''" False False readyPad]
  have "colorToMIDIVelocity (JString ''red'') False False = Inl (Error ''Invalid color'')"
    using t[THEN conjunct1] by simp
  moreover have "fst (setSingleLED (JObject (snd (gridButton ''00'' 0 0))) (JString ''red'')
                        False False readyPad) = Inl (Error ''Invalid color'')"
    using bspec[OF t[THEN conjunct2, THEN conjunct2, THEN conjunct2] button_00] by simp
  moreover have "\<exists>v. colorToMIDIVelocity (JObject Colors_Red) False False = Inr v"
    using bspec[OF t[THEN conjunct2, THEN conjunct2, THEN conjunct1] Red_in_palette] .
  ultimately show ?thesis by blast
qed

text \<open>
  Claim C7 as stated makes the encoder fail for every value outside the palette. An object
  with \<open>r = 5\<close> and \<open>g = 7\<close> is not a palette entry, and it is encoded to 117 without error.
\<close>

theorem InvalidColor_counterexample:
  "\<lparr>color_name = ''Custom'', color_r = Some 5, color_g = Some 7,
    htmlColorCode = ''#123456''\<rparr> \<notin> set palette \<and>
   colorToMIDIVelocity
     (JObject \<lparr>color_name = ''Custom'', color_r = Some 5, color_g = Some 7,
               htmlColorCode = ''#123456''\<rparr>) False False = Inr (Num 117)"
  by (simp add: palette_def Colors_def Colors_defs colorGenerator_def colorToMIDIVelocity_def)

section \<open>Inbound messages\<close>

lemma midiMessageListener_pressed:
  assumes "length data = 3" "data ! 2 = 0x7F" "findButton data = Some B"
  shows "midiMessageListener data s =
           s\<lparr>calls := calls s @ map (\<lambda>callback. (callback, Some B)) (listeners_pressed s),
              pressedButtons := insert B (pressedButtons s)\<rparr>"
  using assms by (simp add: midiMessageListener_def dispatchListener_def)

lemma midiMessageListener_released:
  assumes "length data = 3" "data ! 2 = 0x00" "findButton data = Some B"
  shows "midiMessageListener data s =
           s\<lparr>calls := calls s @ map (\<lambda>callback. (callback, Some B)) (listeners_released s),
              pressedButtons := pressedButtons s - {B}\<rparr>"
  using assms by (simp add: midiMessageListener_def dispatchListener_def)

lemma findButton_automap:
  assumes "(n, b) \<in> set Buttons" "automap_key b = Some k" "st \<noteq> 0x90"
  shows "findButton [st, word_of_int k, v] = Some b"
proof -
  let ?P = "\<lambda>i. case Buttons_get i of None \<Rightarrow> False
                | Some b' \<Rightarrow> automap_key b' = Some (uint (word_of_int k :: byte))"
  have k: "uint (word_of_int k :: byte) = k"
    using Buttons_entry(4)[OF assms(1,2)] by (simp add: uint_word_of_int)
  have "n \<in> set (Object_keys Buttons)"
    unfolding Object_keys_set using assms(1) by (rule image_eqI[rotated]) simp
  moreover have "?P n"
    using assms(2) Buttons_get_entry[OF assms(1)] by (simp add: k)
  moreover have "\<forall>y\<in>set (Object_keys Buttons). ?P y \<longrightarrow> y = n"
  proof (intro ballI impI)
    fix y assume py: "?P y"
    then obtain b' where b': "Buttons_get y = Some b'" "automap_key b' = Some k"
      by (auto simp: k split: option.splits)
    then have "(y, b') \<in> set Buttons" by (simp add: Buttons_get_mem)
    with automap_key_unique[OF assms(1) this assms(2) b'(2)] show "y = n" by simp
  qed
  ultimately have "find ?P (Object_keys Buttons) = Some n"
    by (rule find_unique)
  moreover have "(\<lambda>i. case Buttons_get i of None \<Rightarrow> False
        | Some b' \<Rightarrow> (if [st, word_of_int k, v] ! 0 = (0x90 :: byte) then note_key b' else automap_key b')
                    = Some (uint ([st, word_of_int k, v] ! 1))) = ?P"
    using assms(3) by (intro ext) (simp split: option.splits)
  ultimately show ?thesis
    using Buttons_get_entry[OF assms(1)] by (simp add: findButton_def)
qed

lemma button_Arm: "(''Arm'', snd (noteButton ''Arm'' 120)) \<in> set Buttons"
  by (simp add: Buttons_table noteButton_def)

text \<open>
  Claim C8. For every note key \<open>K\<close> of a button \<open>B\<close> of the registry, the inbound press
  message \<open>[0x90, K, 0x7F]\<close> resolves to \<open>B\<close>: the pressed listeners are called with \<open>B\<close> and
  \<open>isButtonPressed(B)\<close> becomes true; the release message \<open>[0x90, K, 0x00]\<close> after it makes
  \<open>isButtonPressed(B)\<close> false again.
\<close>

theorem press_release_round_trip:
  assumes "(n, B) \<in> set Buttons" and "note_key B = Some K"
  shows "findButton [0x90, word_of_int K, 0x7F] = Some B \<and>
         calls (midiMessageListener [0x90, word_of_int K, 0x7F] s) =
           calls s @ map (\<lambda>callback. (callback, Some B)) (listeners_pressed s) \<and>
         isButtonPressed (JObject B) (midiMessageListener [0x90, word_of_int K, 0x7F] s) \<and>
         \<not> isButtonPressed (JObject B)
             (midiMessageListener [0x90, word_of_int K, 0x00]
                (midiMessageListener [0x90, word_of_int K, 0x7F] s))"
proof -
  have press: "findButton [0x90, word_of_int K, 0x7F] = Some B"
    and release: "findButton [0x90, word_of_int K, 0x00] = Some B"
    using findButton_note[OF assms] by simp_all
  have p: "midiMessageListener [0x90, word_of_int K, 0x7F] s =
             s\<lparr>calls := calls s @ map (\<lambda>callback. (callback, Some B)) (listeners_pressed s),
                pressedButtons := insert B (pressedButtons s)\<rparr>"
    by (rule midiMessageListener_pressed[OF _ _ press]) simp_all
  have r: "midiMessageListener [0x90, word_of_int K, 0x00] t =
             t\<lparr>calls := calls t @ map (\<lambda>callback. (callback, Some B)) (listeners_released t),
                pressedButtons := pressedButtons t - {B}\<rparr>" for t
    by (rule midiMessageListener_released[OF _ _ release]) simp_all
  show ?thesis
    unfolding r p using press by simp
qed

text \<open>The theorem at the side button Arm, whose note key is 120, on a connected object.\<close>

theorem press_release_round_trip_witness:
  "findButton [0x90, 120, 0x7F] = Some (snd (noteButton ''Arm'' 120)) \<and>
   calls (midiMessageListener [0x90, 120, 0x7F] connectedPad) =
     [(1, Some (snd (noteButton ''Arm'' 120)))] \<and>
   isButtonPressed (JObject (snd (noteButton ''Arm'' 120)))
     (midiMessageListener [0x90, 120, 0x7F] connectedPad) \<and>
   \<not> isButtonPressed (JObject (snd (noteButton ''Arm'' 120)))
       (midiMessageListener [0x90, 120, 0x00]
          (midiMessageListener [0x90, 120, 0x7F] connectedPad))"
proof -
  have k: "note_key (snd (noteButton ''Arm'' 120)) = Some 120"
    by (simp add: noteButton_def buttonGenerator_def)
  from press_release_round_trip[OF button_Arm k, of connectedPad]
  show ?thesis by (simp add: connectedPad_def constructor_def)
qed

text \<open>
  Claim C10. When a press message (status byte \<open>0x7F\<close>) that resolves to a button \<open>B\<close> is
  processed twice in a row, the set of pressed buttons is the same as after processing it
  once, with \<open>B\<close> a member, and the pressed listeners are called once per delivery, twice in
  all. A release message (status byte \<open>0x00\<close>) for a button that is not in the set leaves the
  set unchanged and still calls the released listeners.
\<close>

theorem repeated_press_and_stray_release:
  assumes "length data = 3" and "findButton data = Some B"
  shows "(data ! 2 = 0x7F \<longrightarrow>
            pressedButtons (midiMessageListener data (midiMessageListener data s)) =
              pressedButtons (midiMessageListener data s) \<and>
            B \<in> pressedButtons (midiMessageListener data s) \<and>
            calls (midiMessageListener data s) =
              calls s @ map (\<lambda>callback. (callback, Some B)) (listeners_pressed s) \<and>
            calls (midiMessageListener data (midiMessageListener data s)) =
              calls s @ map (\<lambda>callback. (callback, Some B)) (listeners_pressed s)
                      @ map (\<lambda>callback. (callback, Some B)) (listeners_pressed s)) \<and>
         (data ! 2 = 0x00 \<and> B \<notin> pressedButtons s \<longrightarrow>
            pressedButtons (midiMessageListener data s) = pressedButtons s \<and>
            calls (midiMessageListener data s) =
              calls s @ map (\<lambda>callback. (callback, Some B)) (listeners_released s))"
proof (intro conjI impI)
  assume press: "data ! 2 = 0x7F"
  note p = midiMessageListener_pressed[OF assms(1) press assms(2)]
  show "pressedButtons (midiMessageListener data (midiMessageListener data s)) =
          pressedButtons (midiMessageListener data s)"
    unfolding p by simp
  show "B \<in> pressedButtons (midiMessageListener data s)"
    unfolding p by simp
  show "calls (midiMessageListener data s) =
          calls s @ map (\<lambda>callback. (callback, Some B)) (listeners_pressed s)"
    unfolding p by simp
  show "calls (midiMessageListener data (midiMessageListener data s)) =
          calls s @ map (\<lambda>callback. (callback, Some B)) (listeners_pressed s)
                  @ map (\<lambda>callback. (callback, Some B)) (listeners_pressed s)"
    unfolding p by simp
next
  assume release: "data ! 2 = 0x00 \<and> B \<notin> pressedButtons s"
  note r = midiMessageListener_released[OF assms(1) conjunct1[OF release] assms(2)]
  show "pressedButtons (midiMessageListener data s) = pressedButtons s"
    unfolding r using release by simp
  show "calls (midiMessageListener data s) =
          calls s @ map (\<lambda>callback. (callback, Some B)) (listeners_released s)"
    unfolding r by simp
qed

text \<open>
  The theorem on a connected object where nothing is pressed: the press message of the top
  button Mixer (automap key 111) delivered twice, and a stray release of the side button Arm.
\<close>

theorem repeated_press_and_stray_release_witness:
  "pressedButtons (midiMessageListener [0xB0, 111, 0x7F]
                     (midiMessageListener [0xB0, 111, 0x7F] connectedPad)) =
     pressedButtons (midiMessageListener [0xB0, 111, 0x7F] connectedPad) \<and>
   calls (midiMessageListener [0xB0, 111, 0x7F]
            (midiMessageListener [0xB0, 111, 0x7F] connectedPad)) =
     [(1, Some (snd (automapButton ''Mixer'' 111))), (1, Some (snd (automapButton ''Mixer'' 111)))] \<and>
   pressedButtons (midiMessageListener [0x90, 120, 0x00] connectedPad) = {} \<and>
   calls (midiMessageListener [0x90, 120, 0x00] connectedPad) =
     [(2, Some (snd (noteButton ''Arm'' 120)))]"
proof -
  have k: "note_key (snd (noteButton ''Arm'' 120)) = Some 120"
    by (simp add: noteButton_def buttonGenerator_def)
  have arm: "findButton [0x90, 120, 0x00] = Some (snd (noteButton ''Arm'' 120))"
    using findButton_note[OF button_Arm k, of 0] by simp
  have "(''Mixer'', snd (automapButton ''Mixer'' 111)) \<in> set Buttons"
    by (simp add: Buttons_table automapButton_def)
  moreover have "automap_key (snd (automapButton ''Mixer'' 111)) = Some 111"
    by (simp add: automapButton_def buttonGenerator_def)
  ultimately have mixer: "findButton [0xB0, 111, 0x7F] = Some (snd (automapButton ''Mixer'' 111))"
    using findButton_automap[of "''Mixer''" _ 111 "0xB0" "0x7F"] by simp
  from repeated_press_and_stray_release[OF _ mixer, of connectedPad]
       repeated_press_and_stray_release[OF _ arm, of connectedPad]
  show ?thesis by (simp add: connectedPad_def constructor_def)
qed

section \<open>Batch update\<close>

lemma mapVelocity_length: "mapVelocity colors = Inr velocities \<Longrightarrow> length velocities = length colors"
proof (induction colors arbitrary: velocities rule: mapVelocity.induct)
  case 1
  then show ?case by simp
next
  case (2 colors)
  then show ?case by (auto split: sum.splits)
next
  case (3 color colors)
  then show ?case by (auto split: sum.splits)
qed

text \<open>A hole stays a hole; an element that is present has been encoded.\<close>

lemma mapVelocity_nth:
  "mapVelocity colors = Inr velocities \<Longrightarrow> i < length colors \<Longrightarrow>
   (colors ! i = None \<longrightarrow> velocities ! i = None) \<and>
   (\<forall>color. colors ! i = Some color \<longrightarrow>
      (\<exists>v. colorToMIDIVelocity color False False = Inr v \<and> velocities ! i = Some v))"
proof (induction colors arbitrary: velocities i rule: mapVelocity.induct)
  case 1
  then show ?case by simp
next
  case (2 colors)
  then show ?case by (cases i) (auto split: sum.splits)
next
  case (3 color colors)
  then show ?case by (cases i) (auto split: sum.splits)
qed



lemma mapVelocity_palette:
  "set colors \<subseteq> (\<lambda>C. Some (JObject C)) ` set palette \<Longrightarrow>
   \<exists>velocities. mapVelocity colors = Inr velocities"
proof (induction colors)
  case Nil
  show ?case by simp
next
  case (Cons c colors)
  then obtain C where C: "c = Some (JObject C)" "C \<in> set palette" by auto
  from velocity_of_palette[OF C(2), of False False] obtain v where
    "colorToMIDIVelocity (JObject C) False False = Inr (Num v)" by blast
  moreover from Cons obtain vs where "mapVelocity colors = Inr vs" by auto
  ultimately show ?case using C(1) by simp
qed

lemma nameAt_forBatch:
  assumes "i < 80"
  shows "nameAt (Some (map Buttons_get forBatchNames)) i = Inr (map fst Buttons ! i)"
proof -
  have mem: "(fst (Buttons ! i), snd (Buttons ! i)) \<in> set Buttons"
    using assms by (simp add: Buttons_length)
  have "button_name (snd (Buttons ! i)) = Some (fst (Buttons ! i))"
    using Buttons_entry(1)[OF mem] .
  then show ?thesis
    using assms by (simp add: nameAt_def forBatch_lookups Buttons_length)
qed



lemma pairedMessages_drop:
  assumes "i < length velocities"
  shows "pairedMessages (drop i velocities) =
           [0x92, ToUint8 (velocityAt velocities i), ToUint8 (velocityAt velocities (i + 1))]
           # pairedMessages (drop (i + 2) velocities)"
proof (cases "i + 1 < length velocities")
  case True
  then have "drop i velocities =
               velocities ! i # velocities ! (i + 1) # drop (i + 2) velocities"
    using assms by (simp add: Cons_nth_drop_Suc)
  with True assms show ?thesis by (simp add: velocityAt_def)
next
  case False
  with assms have "drop i velocities = [velocities ! i]" "drop (i + 2) velocities = []"
    by (simp_all add: Cons_nth_drop_Suc[symmetric])
  with False assms show ?thesis by (simp add: velocityAt_def)
qed

text \<open>
  On a connected object with its LED buffers, an iteration of the loop succeeds for every
  array of at most 80 slots, sparse or not.
\<close>

lemma setMultipleLED_body_ready:
  assumes i: "i < length colors" and len: "length velocities = length colors" "length colors \<le> 80"
    and out: "outputPort s = Some sent" and ready: "buffersReady s"
  shows "\<exists>bufs. setMultipleLED_body colors velocities (Some (map Buttons_get forBatchNames)) i s =
           (Inr (), s\<lparr>outputPort :=
                          Some (sent @ [[0x92, ToUint8 (velocityAt velocities i),
                                         ToUint8 (velocityAt velocities (i + 1))]]),
                       ledBuffers := Some bufs\<rparr>) \<and>
           (\<forall>m k. bufferAt (Some bufs) m k =
              (if updatingBuffer s = Some m \<and> truthy (colorAt colors (i + 1)) \<and>
                  k = map fst Buttons ! (i + 1)
               then Some (colorAt colors (i + 1))
               else if updatingBuffer s = Some m \<and> k = map fst Buttons ! i
               then Some (colorAt colors i)
               else ledAt s m k))"
proof -
  let ?msg = "[0x92, ToUint8 (velocityAt velocities i), ToUint8 (velocityAt velocities (i + 1))]"
  let ?s1 = "s\<lparr>outputPort := Some (sent @ [?msg])\<rparr>"
  let ?L = "Some (map Buttons_get forBatchNames)"
  have send: "midiSend [Some (Num 0x92), velocityAt velocities i, velocityAt velocities (i + 1)] s
                = (Inr (), ?s1)"
    by (simp add: midiSend_connected[OF out])
  have name: "nameAt ?L i = Inr (map fst Buttons ! i)"
    using i len by (intro nameAt_forBatch) simp
  have ready1: "buffersReady ?s1" using ready by (simp add: buffersReady_def)
  from setLed_ready[OF ready1, of "map fst Buttons ! i" "colorAt colors i"] obtain bufs1 where
    led1: "setLed (map fst Buttons ! i) (colorAt colors i) ?s1 =
             (Inr (), ?s1\<lparr>ledBuffers := Some bufs1\<rparr>)"
    and at1: "\<forall>m k. bufferAt (Some bufs1) m k =
               (if updatingBuffer s = Some m \<and> k = map fst Buttons ! i
                then Some (colorAt colors i) else ledAt s m k)"
    by (auto simp: ledAt_def)
  let ?s2 = "?s1\<lparr>ledBuffers := Some bufs1\<rparr>"
  show ?thesis
  proof (cases "truthy (colorAt colors (i + 1))")
    case False
    then have "setMultipleLED_body colors velocities ?L i s = (Inr (), ?s2)"
      using send name led1 by (simp add: setMultipleLED_body_def)
    with at1 False show ?thesis by (intro exI[of _ bufs1]) simp
  next
    case True
    then have next_slot: "i + 1 < length colors"
      by (auto simp: colorAt_def split: if_splits)
    have name2: "nameAt ?L (i + 1) = Inr (map fst Buttons ! (i + 1))"
      using next_slot len by (intro nameAt_forBatch) simp
    have ready2: "buffersReady ?s2" using ready by (simp add: buffersReady_def)
    from setLed_ready[OF ready2, of "map fst Buttons ! (i + 1)" "colorAt colors (i + 1)"]
    obtain bufs2
      where led2: "setLed (map fst Buttons ! (i + 1)) (colorAt colors (i + 1)) ?s2 =
                     (Inr (), ?s2\<lparr>ledBuffers := Some bufs2\<rparr>)"
        and at2: "\<forall>m k. bufferAt (Some bufs2) m k =
               (if updatingBuffer s = Some m \<and> k = map fst Buttons ! (i + 1)
                then Some (colorAt colors (i + 1)) else bufferAt (Some bufs1) m k)"
      by (auto simp: ledAt_def)
    have "setMultipleLED_body colors velocities ?L i s = (Inr (), ?s2\<lparr>ledBuffers := Some bufs2\<rparr>)"
      using send name led1 True name2 led2
      by (simp add: setMultipleLED_body_def)
    with at1 at2 True show ?thesis by (intro exI[of _ bufs2]) simp
  qed
qed

lemma setMultipleLED_loop_ready:
  assumes len: "length velocities = length colors" "length colors \<le> 80"
  shows "outputPort s = Some sent \<Longrightarrow> buffersReady s \<Longrightarrow>
         \<exists>bufs. setMultipleLED_loop colors velocities (Some (map Buttons_get forBatchNames)) i s =
           (Inr (), s\<lparr>outputPort := Some (sent @ pairedMessages (drop i velocities)),
                       ledBuffers := Some bufs\<rparr>) \<and>
           (\<forall>m k. k \<notin> set (drop i (take (length colors) (map fst Buttons))) \<longrightarrow>
                   bufferAt (Some bufs) m k = ledAt s m k)"
  using len
proof (induction colors velocities "Some (map Buttons_get forBatchNames)" i s arbitrary: sent
       rule: setMultipleLED_loop.induct)
  case (1 colors velocities i s)
  let ?L = "Some (map Buttons_get forBatchNames)"
  let ?names = "map fst Buttons"
  show ?case
  proof (cases "i < length velocities")
    case False
    from "1.prems"(2) obtain bufs where b: "ledBuffers s = Some bufs"
      by (auto simp: buffersReady_def)
    have "s\<lparr>outputPort := Some sent, ledBuffers := Some bufs\<rparr> = s"
      using "1.prems"(1) b by simp
    with False b show ?thesis
      by (intro exI[of _ bufs]) (simp add: setMultipleLED_loop.simps[of colors velocities ?L i s] ledAt_def)
  next
    case True
    then have i: "i < length colors" using "1.prems"(3) by simp
    let ?msg = "[0x92, ToUint8 (velocityAt velocities i), ToUint8 (velocityAt velocities (i + 1))]"
    from setMultipleLED_body_ready[OF i "1.prems"(3,4,1,2)] obtain bufs1 where
      body: "setMultipleLED_body colors velocities ?L i s =
               (Inr (), s\<lparr>outputPort := Some (sent @ [?msg]), ledBuffers := Some bufs1\<rparr>)"
      and at1: "\<forall>m k. bufferAt (Some bufs1) m k =
              (if updatingBuffer s = Some m \<and> truthy (colorAt colors (i + 1)) \<and>
                  k = ?names ! (i + 1)
               then Some (colorAt colors (i + 1))
               else if updatingBuffer s = Some m \<and> k = ?names ! i
               then Some (colorAt colors i)
               else ledAt s m k)"
      by blast
    let ?s1 = "s\<lparr>outputPort := Some (sent @ [?msg]), ledBuffers := Some bufs1\<rparr>"
    have out1: "outputPort ?s1 = Some (sent @ [?msg])" by simp
    have ready1: "buffersReady ?s1" using "1.prems"(2) by (simp add: buffersReady_def)
    from "1.hyps"[OF True body[symmetric] refl out1 ready1 "1.prems"(3,4)] obtain bufs where
      rest: "setMultipleLED_loop colors velocities ?L (i + 2) ?s1 =
               (Inr (), ?s1\<lparr>outputPort := Some ((sent @ [?msg]) @ pairedMessages (drop (i + 2) velocities)),
                           ledBuffers := Some bufs\<rparr>)"
      and at: "\<forall>m k. k \<notin> set (drop (i + 2) (take (length colors) ?names)) \<longrightarrow>
                   bufferAt (Some bufs) m k = ledAt ?s1 m k"
      by blast
    have run: "setMultipleLED_loop colors velocities ?L i s =
                 (Inr (), s\<lparr>outputPort := Some (sent @ pairedMessages (drop i velocities)),
                             ledBuffers := Some bufs\<rparr>)"
      using True body rest
      by (simp add: setMultipleLED_loop.simps[of colors velocities ?L i s] pairedMessages_drop[OF True])
    have frame: "bufferAt (Some bufs) m k = ledAt s m k"
      if k: "k \<notin> set (drop i (take (length colors) ?names))" for m k
    proof -
      have n: "length colors \<le> length ?names" using "1.prems"(4) by (simp add: Buttons_length)
      have split: "drop i (take (length colors) ?names) =
                     ?names ! i # drop (i + 1) (take (length colors) ?names)"
        using i n by (simp add: Cons_nth_drop_Suc[symmetric])
      have k0: "k \<noteq> ?names ! i" using k split by auto
      have k1: "k \<noteq> ?names ! (i + 1)" if "truthy (colorAt colors (i + 1))"
      proof -
        from that have "i + 1 < length colors" by (auto simp: colorAt_def split: if_splits)
        then have "drop (i + 1) (take (length colors) ?names) =
                ?names ! (i + 1) # drop (i + 2) (take (length colors) ?names)"
          using n by (simp add: Cons_nth_drop_Suc[symmetric])
        with k split show ?thesis by auto
      qed
      have k2: "k \<notin> set (drop (i + 2) (take (length colors) ?names))"
        using k set_drop_subset_set_drop[of i "i + 2" "take (length colors) ?names"] by auto
      from at k2 have "bufferAt (Some bufs) m k = bufferAt (Some bufs1) m k"
        by (simp add: ledAt_def)
      also have "\<dots> = ledAt s m k" using at1 k0 k1 by auto
      finally show ?thesis .
    qed
    from run frame show ?thesis by blast
  qed
qed

lemma names_head: "map fst Buttons ! 0 = ''00''"
  by (simp add: Buttons_names)

lemma names_head_not_later:
  "''00'' \<notin> set (drop 2 (take n (map fst Buttons)))" "map fst Buttons ! 1 \<noteq> ''00''"
proof -
  have "''00'' \<notin> set (drop 1 (map fst Buttons))"
    by (simp add: Buttons_names)
  moreover have "set (drop 2 (take n (map fst Buttons))) \<subseteq> set (drop 1 (map fst Buttons))"
    by (metis drop_take one_le_numeral set_drop_subset_set_drop set_take_subset subset_trans)
  ultimately show "''00'' \<notin> set (drop 2 (take n (map fst Buttons)))" by blast
  show "map fst Buttons ! 1 \<noteq> ''00''" by (simp add: Buttons_names)
qed

lemma button_00_get: "Buttons_get ''00'' = Some (snd (gridButton ''00'' 0 0))"
  by (rule Buttons_get_entry[OF button_00])

text \<open>
  On a connected object with its LED buffers and a consistent cache, once \<open>colors.map\<close> has
  returned, the loop of \<open>setMultipleLED\<close> runs to its end and only the flush is left.
\<close>

lemma setMultipleLED_loop_run:
  assumes out: "outputPort s = Some sent" and ready: "buffersReady s"
    and cache: "cacheConsistent s" and u: "updatingBuffer s = Some u"
    and colors: "colors \<noteq> []" "length colors \<le> 80"
    and vs: "mapVelocity colors = Inr velocities"
  shows "\<exists>bufs s0.
           s0 = snd (getOrderedButtons ''forBatch'' s) \<and>
           setMultipleLED_loop colors velocities (fst (getOrderedButtons ''forBatch'' s)) 0 s0 =
             (Inr (), s0\<lparr>outputPort := Some (sent @ pairedMessages velocities),
                          ledBuffers := Some bufs\<rparr>) \<and>
           bufferAt (Some bufs) u ''00'' = Some (colorAt colors 0) \<and>
           setMultipleLED (JObject colors) s =
             (case setSingleLED (JObject (snd (gridButton ''00'' 0 0))) (colorAt colors 0)
                     False False
                     (s0\<lparr>outputPort := Some (sent @ pairedMessages velocities),
                         ledBuffers := Some bufs\<rparr>) of
                (Inl e, s2) \<Rightarrow> (Inl e, s2)
              | (Inr u, s2) \<Rightarrow> (Inr (), dispatchListener led_changed None s2))"
proof -
  let ?L = "Some (map Buttons_get forBatchNames)"
  let ?names = "map fst Buttons"
  define s0 where "s0 = snd (getOrderedButtons ''forBatch'' s)"
  have L: "fst (getOrderedButtons ''forBatch'' s) = ?L"
    by (rule getOrderedButtons_forBatch[OF cache])
  have get: "getOrderedButtons ''forBatch'' s = (?L, s0)"
    using L by (simp add: s0_def prod_eq_iff)
  have out0: "outputPort s0 = Some sent" and ub0: "updatingBuffer s0 = Some u"
    and ready0: "buffersReady s0"
    using out ready u getOrderedButtons_frame[of "''forBatch''" s]
    by (simp_all add: s0_def buffersReady_def)
  have len: "length velocities = length colors" by (rule mapVelocity_length[OF vs])
  have pos: "0 < length colors" "0 < length velocities" using colors(1) len by simp_all
  let ?msg = "[0x92, ToUint8 (velocityAt velocities 0), ToUint8 (velocityAt velocities (0 + 1))]"
  from setMultipleLED_body_ready[OF pos(1) len colors(2) out0 ready0] obtain bufs1 where
    body: "setMultipleLED_body colors velocities ?L 0 s0 =
             (Inr (), s0\<lparr>outputPort := Some (sent @ [?msg]), ledBuffers := Some bufs1\<rparr>)"
    and at1: "\<forall>m k. bufferAt (Some bufs1) m k =
              (if updatingBuffer s0 = Some m \<and> truthy (colorAt colors (0 + 1)) \<and>
                  k = ?names ! (0 + 1)
               then Some (colorAt colors (0 + 1))
               else if updatingBuffer s0 = Some m \<and> k = ?names ! 0
               then Some (colorAt colors 0)
               else ledAt s0 m k)"
    by blast
  let ?s1 = "s0\<lparr>outputPort := Some (sent @ [?msg]), ledBuffers := Some bufs1\<rparr>"
  have out1: "outputPort ?s1 = Some (sent @ [?msg])" by simp
  have ready1: "buffersReady ?s1" using ready0 by (simp add: buffersReady_def)
  from setMultipleLED_loop_ready[OF len colors(2) out1 ready1, of 2] obtain bufs where
    rest: "setMultipleLED_loop colors velocities ?L 2 ?s1 =
             (Inr (), ?s1\<lparr>outputPort := Some ((sent @ [?msg]) @ pairedMessages (drop 2 velocities)),
                         ledBuffers := Some bufs\<rparr>)"
    and at: "\<forall>m k. k \<notin> set (drop 2 (take (length colors) ?names)) \<longrightarrow>
                 bufferAt (Some bufs) m k = ledAt ?s1 m k"
    by blast
  let ?s2 = "s0\<lparr>outputPort := Some (sent @ pairedMessages velocities), ledBuffers := Some bufs\<rparr>"
  have paired: "pairedMessages velocities = ?msg # pairedMessages (drop 2 velocities)"
    using pairedMessages_drop[OF pos(2)] by (simp add: numeral_2_eq_2)
  have loop: "setMultipleLED_loop colors velocities ?L 0 s0 = (Inr (), ?s2)"
    using pos(2) body rest
    by (simp add: setMultipleLED_loop.simps[of colors velocities ?L 0 s0] paired numeral_2_eq_2)
  have "bufferAt (Some bufs) u ''00'' = bufferAt (Some bufs1) u ''00''"
    using at names_head_not_later(1)[of "length colors"] by (simp add: ledAt_def)
  also have "\<dots> = Some (colorAt colors 0)"
    using at1 ub0 names_head names_head_not_later(2) by auto
  finally have led00: "bufferAt (Some bufs) u ''00'' = Some (colorAt colors 0)" .
  have final: "setMultipleLED (JObject colors) s =
             (case setSingleLED (JObject (snd (gridButton ''00'' 0 0))) (colorAt colors 0)
                     False False ?s2 of
                (Inl e, s2) \<Rightarrow> (Inl e, s2)
              | (Inr u, s2) \<Rightarrow> (Inr (), dispatchListener led_changed None s2))"
    using colors get vs loop
    by (simp add: setMultipleLED_def button_00_get)
  have loop': "setMultipleLED_loop colors velocities (fst (getOrderedButtons ''forBatch'' s)) 0 s0 =
                 (Inr (), ?s2)"
    unfolding L by (rule loop)
  show ?thesis
  proof (intro exI conjI)
    show "s0 = snd (getOrderedButtons ''forBatch'' s)" by (rule s0_def)
    show "setMultipleLED_loop colors velocities (fst (getOrderedButtons ''forBatch'' s)) 0 s0 =
            (Inr (), ?s2)" by (rule loop')
    show "bufferAt (Some bufs) u ''00'' = Some (colorAt colors 0)" by (rule led00)
    show "setMultipleLED (JObject colors) s =
             (case setSingleLED (JObject (snd (gridButton ''00'' 0 0))) (colorAt colors 0)
                     False False ?s2 of
                (Inl e, s2) \<Rightarrow> (Inl e, s2)
              | (Inr u, s2) \<Rightarrow> (Inr (), dispatchListener led_changed None s2))"
      by (rule final)
  qed
qed

text \<open>When element 0 is present, the flush succeeds and the operation ends with a dispatch.\<close>

lemma setMultipleLED_ready:
  assumes out: "outputPort s = Some sent" and ready: "buffersReady s"
    and cache: "cacheConsistent s" and u: "updatingBuffer s = Some u"
    and colors: "colors \<noteq> []" "length colors \<le> 80"
    and vs: "mapVelocity colors = Inr velocities"
    and first: "colors ! 0 = Some c0"
  shows "\<exists>bufs s0.
           s0 = snd (getOrderedButtons ''forBatch'' s) \<and>
           setMultipleLED_loop colors velocities (fst (getOrderedButtons ''forBatch'' s)) 0 s0 =
             (Inr (), s0\<lparr>outputPort := Some (sent @ pairedMessages velocities),
                          ledBuffers := Some bufs\<rparr>) \<and>
           setMultipleLED (JObject colors) s =
             (Inr (), s0\<lparr>outputPort :=
                            Some (sent @ pairedMessages velocities @
                                  [[0x90, 0, ToUint8 (velocities ! 0)]]),
                         ledBuffers := Some bufs,
                         calls := calls s @ ledChangedCalls s @ ledChangedCalls s\<rparr>) \<and>
           bufferAt (Some bufs) u ''00'' = Some c0"
proof -
  from setMultipleLED_loop_run[OF out ready cache u colors vs] obtain bufs s0 where
    s0: "s0 = snd (getOrderedButtons ''forBatch'' s)"
    and loop: "setMultipleLED_loop colors velocities (fst (getOrderedButtons ''forBatch'' s)) 0 s0 =
             (Inr (), s0\<lparr>outputPort := Some (sent @ pairedMessages velocities),
                          ledBuffers := Some bufs\<rparr>)"
    and led: "bufferAt (Some bufs) u ''00'' = Some (colorAt colors 0)"
    and run: "setMultipleLED (JObject colors) s =
             (case setSingleLED (JObject (snd (gridButton ''00'' 0 0))) (colorAt colors 0)
                     False False
                     (s0\<lparr>outputPort := Some (sent @ pairedMessages velocities),
                         ledBuffers := Some bufs\<rparr>) of
                (Inl e, s2) \<Rightarrow> (Inl e, s2)
              | (Inr u, s2) \<Rightarrow> (Inr (), dispatchListener led_changed None s2))"
    by blast
  let ?s2 = "s0\<lparr>outputPort := Some (sent @ pairedMessages velocities), ledBuffers := Some bufs\<rparr>"
  have calls0: "calls s0 = calls s" and ub0: "updatingBuffer s0 = Some u"
    and lc0: "ledChangedCalls s0 = ledChangedCalls s" and ready0: "buffersReady s0"
    using ready u getOrderedButtons_frame[of "''forBatch''" s]
    by (simp_all add: s0 buffersReady_def ledChangedCalls_def)
  have c0: "colorAt colors 0 = c0" using colors(1) first by (simp add: colorAt_def)
  from mapVelocity_nth[OF vs, of 0] colors(1) first obtain v0 where
    v0: "colorToMIDIVelocity c0 False False = Inr v0" "velocities ! 0 = Some v0" by auto
  have out2: "outputPort ?s2 = Some (sent @ pairedMessages velocities)" by simp
  have ready2: "buffersReady ?s2" using ready0 by (simp add: buffersReady_def)
  from setSingleLED_known[OF button_00 v0(1) out2 ready2] obtain bufs' where
    flush: "setSingleLED (JObject (snd (gridButton ''00'' 0 0))) c0 False False ?s2 =
              (Inr (), ?s2\<lparr>outputPort :=
                             Some ((sent @ pairedMessages velocities) @
                                   [[0x90, 0, ToUint8 (Some v0)]]),
                          ledBuffers := Some bufs',
                          calls := calls ?s2 @ ledChangedCalls ?s2\<rparr>)"
    and same: "ledAt ?s2 (the (updatingBuffer ?s2)) ''00'' = Some c0 \<longrightarrow>
               Some bufs' = ledBuffers ?s2"
    by (auto simp: gridButton_def buttonGenerator_def)
  have "bufs' = bufs" using same led c0 ub0 by (simp add: ledAt_def)
  with flush have flush': "setSingleLED (JObject (snd (gridButton ''00'' 0 0))) (colorAt colors 0)
              False False ?s2 =
              (Inr (), s0\<lparr>outputPort :=
                             Some (sent @ pairedMessages velocities @
                                   [[0x90, 0, ToUint8 (velocities ! 0)]]),
                          ledBuffers := Some bufs,
                          calls := calls s @ ledChangedCalls s\<rparr>)"
    using calls0 lc0 c0 v0(2) by (simp add: ledChangedCalls_def)
  have final: "setMultipleLED (JObject colors) s =
             (Inr (), s0\<lparr>outputPort :=
                            Some (sent @ pairedMessages velocities @
                                  [[0x90, 0, ToUint8 (velocities ! 0)]]),
                         ledBuffers := Some bufs,
                         calls := calls s @ ledChangedCalls s @ ledChangedCalls s\<rparr>)"
    unfolding run flush' using lc0
    by (simp add: dispatch_led_changed ledChangedCalls_def)
  show ?thesis
  proof (intro exI conjI)
    show "s0 = snd (getOrderedButtons ''forBatch'' s)" by (rule s0)
    show "setMultipleLED_loop colors velocities (fst (getOrderedButtons ''forBatch'' s)) 0 s0 =
            (Inr (), ?s2)" by (rule loop)
    show "setMultipleLED (JObject colors) s =
             (Inr (), s0\<lparr>outputPort :=
                            Some (sent @ pairedMessages velocities @
                                  [[0x90, 0, ToUint8 (velocities ! 0)]]),
                         ledBuffers := Some bufs,
                         calls := calls s @ ledChangedCalls s @ ledChangedCalls s\<rparr>)"
      by (rule final)
    show "bufferAt (Some bufs) u ''00'' = Some c0" using led c0 by simp
  qed
qed


text \<open>
  Claim C4 says that, for every valid batch of 1 to 80 palette colors, \<open>setMultipleLED\<close> sends
  after its loop one more single-LED command that re-applies \<open>colors[0]\<close> to button \<open>'00'\<close>
  without further effect on the LED buffers, and notifies the LED-changed listeners exactly
  once, at the end. On an object that is connected, has its LED buffers and a consistent cache,
  the first part holds: the loop sends the paired messages and calls no listener, then the
  message \<open>[0x90, 0, velocity of colors[0]]\<close> is sent and the LED buffers stay as the loop
  left them. The notification does not: the single-LED command dispatches \<open>led_changed\<close>
  itself, and \<open>setMultipleLED\<close> dispatches it again, so every LED-changed listener is called
  twice.
\<close>

theorem setMultipleLED_flush_and_notify:
  assumes "outputPort s = Some sent" and "buffersReady s" and "cacheConsistent s"
    and "updatingBuffer s = Some u"
    and "colors \<noteq> []" and "length colors \<le> 80"
    and "set colors \<subseteq> (\<lambda>C. Some (JObject C)) ` set palette"
  shows "\<exists>velocities v0 s1 s2.
           mapVelocity colors = Inr velocities \<and>
           setMultipleLED_loop colors velocities (fst (getOrderedButtons ''forBatch'' s)) 0
               (snd (getOrderedButtons ''forBatch'' s)) = (Inr (), s1) \<and>
           outputPort s1 = Some (sent @ pairedMessages velocities) \<and>
           calls s1 = calls s \<and>
           setMultipleLED (JObject colors) s = (Inr (), s2) \<and>
           colorToMIDIVelocity (colorAt colors 0) False False = Inr v0 \<and>
           outputPort s2 = Some (sent @ pairedMessages velocities @ [[0x90, 0, ToUint8 (Some v0)]]) \<and>
           ledBuffers s2 = ledBuffers s1 \<and>
           ledAt s2 u ''00'' = Some (colorAt colors 0) \<and>
           calls s2 = calls s @ ledChangedCalls s @ ledChangedCalls s"
proof -
  from mapVelocity_palette[OF assms(7)] obtain velocities where
    vs: "mapVelocity colors = Inr velocities" by blast
  from assms(5,7) obtain C where first: "colors ! 0 = Some (JObject C)"
    by (cases colors) auto
  have c0: "colorAt colors 0 = JObject C" using assms(5) first by (simp add: colorAt_def)
  define s0 where "s0 = snd (getOrderedButtons ''forBatch'' s)"
  from setMultipleLED_ready[OF assms(1-6) vs first] obtain bufs where
    loop: "setMultipleLED_loop colors velocities (fst (getOrderedButtons ''forBatch'' s)) 0 s0 =
             (Inr (), s0\<lparr>outputPort := Some (sent @ pairedMessages velocities),
                          ledBuffers := Some bufs\<rparr>)"
    and run: "setMultipleLED (JObject colors) s =
             (Inr (), s0\<lparr>outputPort :=
                            Some (sent @ pairedMessages velocities @
                                  [[0x90, 0, ToUint8 (velocities ! 0)]]),
                         ledBuffers := Some bufs,
                         calls := calls s @ ledChangedCalls s @ ledChangedCalls s\<rparr>)"
    and led: "bufferAt (Some bufs) u ''00'' = Some (JObject C)"
    unfolding s0_def by blast
  have calls0: "calls s0 = calls s"
    unfolding s0_def by (rule getOrderedButtons_frame)
  from mapVelocity_nth[OF vs, of 0] assms(5) first obtain v0 where
    v0: "colorToMIDIVelocity (JObject C) False False = Inr v0" "velocities ! 0 = Some v0"
    by auto
  show ?thesis
  proof (intro exI conjI)
    show "mapVelocity colors = Inr velocities" by (rule vs)
    show "setMultipleLED_loop colors velocities (fst (getOrderedButtons ''forBatch'' s)) 0
               (snd (getOrderedButtons ''forBatch'' s)) =
            (Inr (), s0\<lparr>outputPort := Some (sent @ pairedMessages velocities),
                          ledBuffers := Some bufs\<rparr>)"
      using loop unfolding s0_def .
    show "setMultipleLED (JObject colors) s =
             (Inr (), s0\<lparr>outputPort :=
                            Some (sent @ pairedMessages velocities @
                                  [[0x90, 0, ToUint8 (velocities ! 0)]]),
                         ledBuffers := Some bufs,
                         calls := calls s @ ledChangedCalls s @ ledChangedCalls s\<rparr>)"
      by (rule run)
    show "colorToMIDIVelocity (colorAt colors 0) False False = Inr v0"
      using v0(1) c0 by simp
  qed (simp_all add: calls0 led ledAt_def c0 v0(2))
qed

text \<open>
  The theorem at the batch \<open>[Red]\<close> on the connected object after \<open>reset\<close> with the log of
  calls emptied: the one LED-changed listener, 3, is called twice.
\<close>

theorem setMultipleLED_flush_and_notify_witness:
  "\<exists>s1 s2.
     setMultipleLED_loop [Some (JObject Colors_Red)] [Some (Num 3)]
         (fst (getOrderedButtons ''forBatch'' (readyPad\<lparr>calls := []\<rparr>))) 0
         (snd (getOrderedButtons ''forBatch'' (readyPad\<lparr>calls := []\<rparr>))) = (Inr (), s1) \<and>
     outputPort s1 = Some [[0xB0, 0, 0], [0x92, 3, 0]] \<and>
     calls s1 = [] \<and>
     setMultipleLED (JObject [Some (JObject Colors_Red)]) (readyPad\<lparr>calls := []\<rparr>) = (Inr (), s2) \<and>
     outputPort s2 = Some [[0xB0, 0, 0], [0x92, 3, 0], [0x90, 0, 3]] \<and>
     ledBuffers s2 = ledBuffers s1 \<and>
     ledAt s2 0 ''00'' = Some (JObject Colors_Red) \<and>
     calls s2 = [(3, None), (3, None)]"
proof -
  define p where "p = readyPad\<lparr>calls := []\<rparr>"
  have p: "outputPort p = Some [[0xB0, 0, 0]]" "buffersReady p" "cacheConsistent p"
    "updatingBuffer p = Some 0"
    using readyPad_facts by (simp_all add: p_def buffersReady_def cacheConsistent_def)
  have calls: "calls p = []" "ledChangedCalls p = [(3, None)]"
    using readyPad_facts(4) by (simp_all add: p_def ledChangedCalls_def)
  have v: "mapVelocity [Some (JObject Colors_Red)] = Inr [Some (Num 3)]"
    by (simp add: colorToMIDIVelocity_def Colors_Red_def colorGenerator_def)
  have c: "colorToMIDIVelocity (JObject Colors_Red) False False = Inr (Num 3)"
    by (simp add: colorToMIDIVelocity_def Colors_Red_def colorGenerator_def)
  have "set [Some (JObject Colors_Red)] \<subseteq> (\<lambda>C. Some (JObject C)) ` set palette"
    using Red_in_palette by simp
  from setMultipleLED_flush_and_notify[OF p _ _ this]
  obtain velocities v0 s1 s2 where
    r: "mapVelocity [Some (JObject Colors_Red)] = Inr velocities"
      "setMultipleLED_loop [Some (JObject Colors_Red)] velocities
         (fst (getOrderedButtons ''forBatch'' p)) 0
         (snd (getOrderedButtons ''forBatch'' p)) = (Inr (), s1)"
      "outputPort s1 = Some ([[0xB0, 0, 0]] @ pairedMessages velocities)"
      "calls s1 = calls p"
      "setMultipleLED (JObject [Some (JObject Colors_Red)]) p = (Inr (), s2)"
      "colorToMIDIVelocity (colorAt [Some (JObject Colors_Red)] 0) False False = Inr v0"
      "outputPort s2 =
         Some ([[0xB0, 0, 0]] @ pairedMessages velocities @ [[0x90, 0, ToUint8 (Some v0)]])"
      "ledBuffers s2 = ledBuffers s1"
      "ledAt s2 0 ''00'' = Some (colorAt [Some (JObject Colors_Red)] 0)"
      "calls s2 = calls p @ ledChangedCalls p @ ledChangedCalls p"
    by auto
  from r(1) v have vs: "velocities = [Some (Num 3)]" by simp
  from r(6) c have v0: "v0 = Num 3" by (simp add: colorAt_def)
  have "\<exists>s1 s2.
     setMultipleLED_loop [Some (JObject Colors_Red)] [Some (Num 3)]
         (fst (getOrderedButtons ''forBatch'' p)) 0
         (snd (getOrderedButtons ''forBatch'' p)) = (Inr (), s1) \<and>
     outputPort s1 = Some [[0xB0, 0, 0], [0x92, 3, 0]] \<and>
     calls s1 = [] \<and>
     setMultipleLED (JObject [Some (JObject Colors_Red)]) p = (Inr (), s2) \<and>
     outputPort s2 = Some [[0xB0, 0, 0], [0x92, 3, 0], [0x90, 0, 3]] \<and>
     ledBuffers s2 = ledBuffers s1 \<and>
     ledAt s2 0 ''00'' = Some (JObject Colors_Red) \<and>
     calls s2 = [(3, None), (3, None)]"
    using r(2-5,7-10) unfolding vs v0
    by (intro exI[of _ s1] exI[of _ s2]) (simp add: calls colorAt_def)
  then show ?thesis unfolding p_def .
qed

section \<open>Validation errors\<close>











section \<open>The hypotheses are invariants\<close>

text \<open>
  The statements above assume a consistent cache and, for the LED commands, existing LED
  buffers. A new object has a consistent cache, \<open>reset\<close> on a connected object creates the
  buffers, and every function of the model keeps both properties.
\<close>

lemma constructor_consistent: "cacheConsistent constructor"
  by (simp add: cacheConsistent_def constructor_def)

lemma keepsSetup_invariants:
  assumes "keepsSetup s s'"
  shows "cacheConsistent s \<Longrightarrow> cacheConsistent s'" and "buffersReady s \<Longrightarrow> buffersReady s'"
  using assms by (simp_all add: keepsSetup_def cacheConsistent_def buffersReady_def)

lemma keepsSetup_refl: "keepsSetup s s"
  by (simp add: keepsSetup_def)

lemma keepsSetup_trans: "keepsSetup s s' \<Longrightarrow> keepsSetup s' s'' \<Longrightarrow> keepsSetup s s''"
  by (simp add: keepsSetup_def)

lemma setLed_keeps: "keepsSetup s (snd (setLed key color s))"
  by (auto simp: keepsSetup_def setLed_def split: option.splits prod.splits)

lemma midiSend_keeps: "keepsSetup s (snd (midiSend arguments s))"
  by (auto simp: keepsSetup_def midiSend_def split: option.splits)

lemma dispatchListener_keeps: "keepsSetup s (dispatchListener listener data s)"
  by (simp add: keepsSetup_def dispatchListener_def)

lemma setSingleLED_keeps: "keepsSetup s (snd (setSingleLED button color both off s))"
proof -
  have "keepsSetup s (snd (case midiSend args s of
           (Inl e, s1) \<Rightarrow> (Inl e, s1)
         | (Inr u, s1) \<Rightarrow>
             (case setLed key color s1 of
                (Inl e, s2) \<Rightarrow> (Inl e, s2)
              | (Inr u, s2) \<Rightarrow> (Inr (), dispatchListener led_changed None s2))))" for args key
  proof -
    obtain r1 s1 where send: "midiSend args s = (r1, s1)" by (cases "midiSend args s")
    obtain r2 s2 where led: "setLed key color s1 = (r2, s2)" by (cases "setLed key color s1")
    have k1: "keepsSetup s s1" using midiSend_keeps[of s args] send by simp
    have k2: "keepsSetup s1 s2" using setLed_keeps[of s1 key color] led by simp
    have k3: "keepsSetup s2 (dispatchListener led_changed None s2)"
      by (rule dispatchListener_keeps)
    from k1 k2 k3 show ?thesis
      using send led
      by (cases r1; cases r2) (auto intro: keepsSetup_trans)
  qed
  then show ?thesis
    by (simp add: setSingleLED_def Let_def keepsSetup_refl split: sum.splits)
qed

lemma setDutyCycle_keeps: "keepsSetup s (snd (setDutyCycle numerator denominator s))"
  by (simp add: setDutyCycle_def keepsSetup_refl midiSend_keeps)

lemma setBrightness_keeps: "keepsSetup s (snd (setBrightness brightness s))"
  by (simp add: setBrightness_def keepsSetup_refl setDutyCycle_keeps)

lemma midiMessageListener_keeps: "keepsSetup s (midiMessageListener data s)"
  by (simp add: midiMessageListener_def keepsSetup_def dispatchListener_def
           split: option.splits)

lemma setMultipleLED_body_keeps:
  "keepsSetup s (snd (setMultipleLED_body colors velocities listOfButtons i s))"
  by (auto simp: keepsSetup_def setMultipleLED_body_def midiSend_def setLed_def
           split: sum.splits prod.splits option.splits if_splits)

lemma setMultipleLED_loop_keeps:
  "keepsSetup s (snd (setMultipleLED_loop colors velocities listOfButtons i s))"
proof (induction colors velocities listOfButtons i s rule: setMultipleLED_loop.induct)
  case (1 colors velocities listOfButtons i s)
  show ?case
  proof (cases "i < length velocities")
    case False
    then show ?thesis
      by (simp add: setMultipleLED_loop.simps[of colors velocities listOfButtons i s]
                    keepsSetup_refl)
  next
    case True
    obtain r s1 where body: "setMultipleLED_body colors velocities listOfButtons i s = (r, s1)"
      by (cases "setMultipleLED_body colors velocities listOfButtons i s")
    have k1: "keepsSetup s s1"
      using setMultipleLED_body_keeps[of s colors velocities listOfButtons i] body by simp
    show ?thesis
    proof (cases r)
      case (Inl e)
      with True body k1 show ?thesis
        by (simp add: setMultipleLED_loop.simps[of colors velocities listOfButtons i s])
    next
      case (Inr u)
      from "1.IH"[OF True body[symmetric] Inr] k1
      have "keepsSetup s (snd (setMultipleLED_loop colors velocities listOfButtons (i + 2) s1))"
        by (rule keepsSetup_trans[rotated])
      with True body Inr show ?thesis
        by (simp add: setMultipleLED_loop.simps[of colors velocities listOfButtons i s])
    qed
  qed
qed

lemma getOrderedButtons_ready:
  "buffersReady s \<Longrightarrow> buffersReady (snd (getOrderedButtons order s))"
  using getOrderedButtons_frame(3,4)[of order s] by (simp add: buffersReady_def)

lemma setMultipleLED_invariants:
  "cacheConsistent s \<Longrightarrow> cacheConsistent (snd (setMultipleLED arg s))"
  "buffersReady s \<Longrightarrow> buffersReady (snd (setMultipleLED arg s))"
proof -
  define s0 where "s0 = snd (getOrderedButtons ''forBatch'' s)"
  have "\<exists>s'. snd (setMultipleLED arg s) = s' \<and> (s' = s \<or> keepsSetup s0 s')"
  proof (cases "\<not> truthy arg \<or> typeof arg \<noteq> ''object'' \<or> length (elements arg) = 0 \<or>
                length (elements arg) > 80")
    case True
    then show ?thesis by (auto simp: setMultipleLED_def)
  next
    case guards: False
    obtain l where get: "getOrderedButtons ''forBatch'' s = (l, s0)"
      by (cases "getOrderedButtons ''forBatch'' s") (simp add: s0_def)
    show ?thesis
    proof (cases "mapVelocity (elements arg)")
      case (Inl e)
      with guards get show ?thesis by (simp add: setMultipleLED_def keepsSetup_refl)
    next
      case (Inr velocities)
      obtain r1 s1 where loop: "setMultipleLED_loop (elements arg) velocities l 0 s0 = (r1, s1)"
        by (cases "setMultipleLED_loop (elements arg) velocities l 0 s0")
      have k1: "keepsSetup s0 s1"
        using setMultipleLED_loop_keeps[of s0 "elements arg" velocities l 0] loop by simp
      let ?flush = "setSingleLED (buttonValue (Buttons_get ''00'')) (colorAt (elements arg) 0)
                      False False s1"
      obtain r2 s2 where flush: "?flush = (r2, s2)" by (cases ?flush)
      have k2: "keepsSetup s1 s2"
        using setSingleLED_keeps[of s1 "buttonValue (Buttons_get ''00'')"
                "colorAt (elements arg) 0" False False] flush by simp
      have k3: "keepsSetup s2 (dispatchListener led_changed None s2)"
        by (rule dispatchListener_keeps)
      from k1 k2 k3 have "keepsSetup s0 s2" "keepsSetup s0 (dispatchListener led_changed None s2)"
        by (blast intro: keepsSetup_trans)+
      with guards get Inr loop flush k1 show ?thesis
        by (cases r1; cases r2) (simp_all add: setMultipleLED_def)
    qed
  qed
  then have step: "snd (setMultipleLED arg s) = s \<or> keepsSetup s0 (snd (setMultipleLED arg s))"
    by auto
  show "cacheConsistent s \<Longrightarrow> cacheConsistent (snd (setMultipleLED arg s))"
    using step getOrderedButtons_consistent[of s "''forBatch''"] keepsSetup_invariants(1)
    unfolding s0_def by auto
  show "buffersReady s \<Longrightarrow> buffersReady (snd (setMultipleLED arg s))"
    using step getOrderedButtons_ready[of s "''forBatch''"] keepsSetup_invariants(2)
    unfolding s0_def by auto
qed

lemma reset_invariants:
  "cacheConsistent s \<Longrightarrow> cacheConsistent (snd (reset s))"
  "outputPort s \<noteq> None \<or> buffersReady s \<Longrightarrow> buffersReady (snd (reset s))"
proof -
  show "cacheConsistent s \<Longrightarrow> cacheConsistent (snd (reset s))"
    by (auto simp: reset_def midiSend_def dispatchListener_def cacheConsistent_def
             split: option.splits)
  show "outputPort s \<noteq> None \<or> buffersReady s \<Longrightarrow> buffersReady (snd (reset s))"
    by (auto simp: reset_def midiSend_def dispatchListener_def buffersReady_def
             split: option.splits)
qed

end
